theory Spec2Isabelle
  imports Main "HOL-Library.Word"
begin

unbundle bit_operations_syntax

section \<open>Bytes, exceptions and helpers shared by the decoders and the patcher\<close>

text \<open>
  A buffer (\<open>bytes\<close>, \<open>bytearray\<close>) is a list of 8-bit words. Offsets and cursors are
  natural numbers: every offset of the sources is a non-negative table entry or is
  derived from one by addition. Python integers are unbounded and modelled as \<open>int\<close>.
  A raised exception is the left summand of the result.
\<close>

type_synonym byte = "8 word"

datatype error =
    IndexError
  | OverflowError
  | StructError
  | TypeError
  | ValueError_anchor
  | ValueError_container byte
  | ValueError_subsection_not_found
  | ValueError_bad_int_tag byte nat
  | RuntimeError_EOF
  | RuntimeError_token_mismatch
  | RuntimeError_key_not_found
  | RuntimeError_unknown_container byte
  | RuntimeError_row_count nat nat
  | RuntimeError_unexpected_value_marker byte
  | RuntimeError_unknown_int_tag byte nat
  | RuntimeError_version_anchor
  | RuntimeError_version_container
  | RuntimeError_unexpected_key_length nat nat
  | RuntimeError_wrong_key nat

section \<open>prepare\_simatch.py: the offset table and the in-place patcher\<close>

text \<open>
  \<open>physical_constraints_offsets\<close>: field name to the dictionary of its occurrences
  (\<open>loc\<close>, \<open>loc2\<close>), each the offset of the first byte of the key text. The table of
  \<open>physics_decode_jsb.py\<close> is the same literal.
\<close>

type_synonym offsets = "(string \<times> (string \<times> nat) list) list"

definition physical_constraints_offsets :: offsets where
  "physical_constraints_offsets = [
    (''acceleration_scaler'', [(''loc'', 0x00000016), (''loc2'', 0x00000B1D)]),
    (''base_top_speed'', [(''loc'', 0x0000002F), (''loc2'', 0x00000B36)]),
    (''basic_header_speed'', [(''loc'', 0x00000043), (''loc2'', 0x00000B4A)]),
    (''fast_jog_speed'', [(''loc'', 0x0000005B), (''loc2'', 0x00000B62)]),
    (''fast_walk_speed'', [(''loc'', 0x0000006F), (''loc2'', 0x00000B76)]),
    (''hard_kick_speed'', [(''loc'', 0x00000084), (''loc2'', 0x00000B8B)]),
    (''jog_speed'', [(''loc'', 0x00000099), (''loc2'', 0x00000BA0)]),
    (''medium_kick_speed'', [(''loc'', 0x000000A8), (''loc2'', 0x00000BAF)]),
    (''medium_to_moderate_kick_speed'', [(''loc'', 0x000000BF), (''loc2'', 0x00000BC6)]),
    (''min_delay_for_ball_lunge_do'', [(''loc'', 0x000000E2), (''loc2'', 0x00000BE9)]),
    (''min_delay_for_ball_lunge_receive'', [(''loc'', 0x00000103), (''loc2'', 0x00000C0A)]),
    (''min_delay_for_block_tackle_do'', [(''loc'', 0x00000129), (''loc2'', 0x00000C30)]),
    (''min_delay_for_block_tackle_receive'', [(''loc'', 0x0000014C), (''loc2'', 0x00000C53)]),
    (''min_delay_for_celebrating_a_goal'', [(''loc'', 0x00000174), (''loc2'', 0x00000C7B)]),
    (''min_delay_for_deflect_ball_do'', [(''loc'', 0x0000019A), (''loc2'', 0x00000CA1)]),
    (''min_delay_for_deflect_ball_receive'', [(''loc'', 0x000001BD), (''loc2'', 0x00000CC4)]),
    (''min_delay_for_diving_header'', [(''loc'', 0x000001E5), (''loc2'', 0x00000CEC)]),
    (''min_delay_for_foot_up_in_tackle_do'', [(''loc'', 0x00000206), (''loc2'', 0x00000D0D)]),
    (''min_delay_for_foot_up_in_tackle_receive'', [(''loc'', 0x0000022E), (''loc2'', 0x00000D35)]),
    (''min_delay_for_force_opponent_to_lose_ball_do'', [(''loc'', 0x0000025B), (''loc2'', 0x00000D62)]),
    (''min_delay_for_force_opponent_to_lose_ball_receive'', [(''loc'', 0x0000028D), (''loc2'', 0x00000D94)]),
    (''min_delay_for_getting_injured'', [(''loc'', 0x000002C4), (''loc2'', 0x00000DCB)]),
    (''min_delay_for_normal_header'', [(''loc'', 0x000002E7), (''loc2'', 0x00000DEE)]),
    (''min_delay_for_obstruct_do'', [(''loc'', 0x00000308), (''loc2'', 0x00000E0F)]),
    (''min_delay_for_obstruct_receive'', [(''loc'', 0x00000327), (''loc2'', 0x00000E2E)]),
    (''min_delay_for_player_stop_to_avoid_collision'', [(''loc'', 0x0000034B), (''loc2'', 0x00000E52)]),
    (''min_delay_for_push_opponen_receive'', [(''loc'', 0x0000037D), (''loc2'', 0x00000E84)]),
    (''min_delay_for_push_opponent_do'', [(''loc'', 0x000003A5), (''loc2'', 0x00000EAC)]),
    (''min_delay_for_shirt_tug_do'', [(''loc'', 0x000003C9), (''loc2'', 0x00000ED0)]),
    (''min_delay_for_shirt_tug_receive'', [(''loc'', 0x000003E5), (''loc2'', 0x00000EEC)]),
    (''min_delay_for_shoulder_charge_do'', [(''loc'', 0x0000040A), (''loc2'', 0x00000F11)]),
    (''min_delay_for_shoulder_charge_receive'', [(''loc'', 0x00000430), (''loc2'', 0x00000F37)]),
    (''min_delay_for_slide_tackle_do'', [(''loc'', 0x0000045B), (''loc2'', 0x00000F62)]),
    (''min_delay_for_slide_tackle_receive'', [(''loc'', 0x0000047E), (''loc2'', 0x00000F85)]),
    (''min_delay_for_trip_do'', [(''loc'', 0x000004A6), (''loc2'', 0x00000FAD)]),
    (''min_delay_for_trip_receive'', [(''loc'', 0x000004C1), (''loc2'', 0x00000FC8)]),
    (''min_delay_for_two_footed_tackle_do'', [(''loc'', 0x000004E1), (''loc2'', 0x00000FE8)]),
    (''min_delay_for_two_footed_tackle_receive'', [(''loc'', 0x00000509), (''loc2'', 0x00001010)]),
    (''min_delay_for_violent_act_do'', [(''loc'', 0x00000536), (''loc2'', 0x0000103D)]),
    (''min_delay_for_violent_act_receive'', [(''loc'', 0x00000558), (''loc2'', 0x0000105F)]),
    (''min_delay_keeper_drop_ball_for_distribution'', [(''loc'', 0x0000057F), (''loc2'', 0x00001086)]),
    (''min_delay_keeper_save_dive_and_hold_ball'', [(''loc'', 0x000005B0), (''loc2'', 0x000010B7)]),
    (''min_delay_keeper_save_dive_but_not_held'', [(''loc'', 0x000005DE), (''loc2'', 0x000010E5)]),
    (''min_delay_keeper_save_intentionally_drop_ball'', [(''loc'', 0x0000060B), (''loc2'', 0x00001112)]),
    (''min_delay_keeper_save_no_dive_hold_ball'', [(''loc'', 0x0000063E), (''loc2'', 0x00001145)]),
    (''min_delay_keeper_save_no_dive_not_held'', [(''loc'', 0x0000066B), (''loc2'', 0x00001172)]),
    (''min_delay_keeper_save_with_outreached_foot'', [(''loc'', 0x00000697), (''loc2'', 0x0000119E)]),
    (''min_extra_delay_for_falling_down_before_injury'', [(''loc'', 0x000006C7), (''loc2'', 0x000011CE)]),
    (''version_major'', [(''loc'', 0x0000070B), (''loc2'', 0x00001212)]),
    (''version_minor'', [(''loc'', 0x0000071A), (''loc2'', 0x00001221)]),
    (''version_release'', [(''loc'', 0x00000729), (''loc2'', 0x00001230)]),
    (''version_year'', [(''loc'', 0x0000073A), (''loc2'', 0x00001241)]),
    (''moderate_jog_speed'', [(''loc'', 0x0000074C), (''loc2'', 0x0000124F)]),
    (''moderate_kick_speed'', [(''loc'', 0x00000764), (''loc2'', 0x00001267)]),
    (''quite_hard_kick_speed'', [(''loc'', 0x0000077D), (''loc2'', 0x00001280)]),
    (''run_speed'', [(''loc'', 0x00000798), (''loc2'', 0x0000129B)]),
    (''slow_jog_speed'', [(''loc'', 0x000007A7), (''loc2'', 0x000012AA)]),
    (''slow_walk_speed'', [(''loc'', 0x000007BB), (''loc2'', 0x000012BE)]),
    (''soft_kick_speed'', [(''loc'', 0x000007D0), (''loc2'', 0x000012D3)]),
    (''soft_to_medium_kick_speed'', [(''loc'', 0x000007E5), (''loc2'', 0x000012E8)]),
    (''speed_scaler'', [(''loc'', 0x00000804), (''loc2'', 0x00001307)]),
    (''sprint_speed'', [(''loc'', 0x00000816), (''loc2'', 0x00001319)]),
    (''theoretical_max_acceleration'', [(''loc'', 0x00000828), (''loc2'', 0x0000132B)]),
    (''theoretical_max_deceleration'', [(''loc'', 0x0000084A), (''loc2'', 0x0000134D)]),
    (''theoretical_max_diving_acceleration'', [(''loc'', 0x0000086C), (''loc2'', 0x0000136F)]),
    (''theoretical_max_diving_speed'', [(''loc'', 0x00000895), (''loc2'', 0x00001398)]),
    (''theoretical_max_potential_direction_change_jog'', [(''loc'', 0x000008B7), (''loc2'', 0x000013BA)]),
    (''theoretical_max_potential_direction_change_run'', [(''loc'', 0x000008EB), (''loc2'', 0x000013EE)]),
    (''theoretical_max_potential_direction_change_walk'', [(''loc'', 0x0000091F), (''loc2'', 0x00001422)]),
    (''theoretical_max_running_speed'', [(''loc'', 0x00000954), (''loc2'', 0x00001457)]),
    (''theoretical_max_turning_rate'', [(''loc'', 0x00000977), (''loc2'', 0x0000147A)]),
    (''theoretical_min_acceleration'', [(''loc'', 0x00000999), (''loc2'', 0x0000149C)]),
    (''theoretical_min_deceleration'', [(''loc'', 0x000009BB), (''loc2'', 0x000014BE)]),
    (''theoretical_min_diving_acceleration'', [(''loc'', 0x000009DD), (''loc2'', 0x000014E0)]),
    (''theoretical_min_diving_speed'', [(''loc'', 0x00000A06), (''loc2'', 0x00001509)]),
    (''theoretical_min_potential_direction_change_jog'', [(''loc'', 0x00000A28), (''loc2'', 0x0000152B)]),
    (''theoretical_min_potential_direction_change_run'', [(''loc'', 0x00000A5C), (''loc2'', 0x0000155F)]),
    (''theoretical_min_potential_direction_change_walk'', [(''loc'', 0x00000A90), (''loc2'', 0x00001593)]),
    (''top_speed'', [(''loc'', 0x00000AC5), (''loc2'', 0x000015C8)]),
    (''very_hard_kick_speed'', [(''loc'', 0x00000AD4), (''loc2'', 0x000015D7)]),
    (''very_slow_walk_speed'', [(''loc'', 0x00000AEE), (''loc2'', 0x000015F1)]),
    (''walk_speed'', [(''loc'', 0x00000B08), (''loc2'', 0x0000160B)])
  ]"

definition ignored_keys :: "string set" where
  "ignored_keys = {''version_year'', ''version_major'', ''version_minor'',
                   ''version_release'', ''version_year''}"

datatype warning =
    KeyNotInOffsets string
  | IndicatorByte string byte

text \<open>\<open>val.to_bytes(4, "little", signed=False)\<close>: OverflowError outside \<open>0 .. 2^32 - 1\<close>.\<close>

definition to_bytes :: "int \<Rightarrow> byte list option" where
  "to_bytes val =
     (if 0 \<le> val \<and> val < 2 ^ 32
      then Some [word_of_int val, word_of_int (val div 2 ^ 8),
                 word_of_int (val div 2 ^ 16), word_of_int (val div 2 ^ 24)]
      else None)"

text \<open>
  The body of the inner loop of \<open>patch_physical_constraints\<close> for one occurrence.
  \<open>jsb_data[indicator_pos]\<close> raises IndexError past the end; the slice assignment
  \<open>jsb_data[data_pos : data_pos + 4] = value_bytes\<close> replaces the bytes of the (clipped)
  slice by the four value bytes.
\<close>

definition patch_occurrence ::
  "byte list \<Rightarrow> string \<Rightarrow> int \<Rightarrow> nat \<Rightarrow> error + byte list \<times> warning list" where
  "patch_occurrence jsb_data key val offset =
     (let indicator_pos = offset + length key in
      if length jsb_data \<le> indicator_pos then Inl IndexError
      else if jsb_data ! indicator_pos \<noteq> 0x02
        then Inr (jsb_data, [IndicatorByte key (jsb_data ! indicator_pos)])
      else
        let data_pos = indicator_pos + 1 in
        (case to_bytes val of
           None \<Rightarrow> Inl OverflowError
         | Some value_bytes \<Rightarrow>
             Inr (take data_pos jsb_data @ value_bytes @ drop (data_pos + 4) jsb_data, [])))"

text \<open>\<open>for loc_key in ("loc", "loc2")\<close>, skipping a \<open>loc_key\<close> the entry does not have.\<close>

fun patch_locs ::
  "(string \<times> nat) list \<Rightarrow> byte list \<Rightarrow> string \<Rightarrow> int \<Rightarrow> string list
     \<Rightarrow> error + byte list \<times> warning list" where
  "patch_locs entry jsb_data key val [] = Inr (jsb_data, [])"
| "patch_locs entry jsb_data key val (loc_key # rest) =
     (case map_of entry loc_key of
        None \<Rightarrow> patch_locs entry jsb_data key val rest
      | Some offset \<Rightarrow>
          (case patch_occurrence jsb_data key val offset of
             Inl e \<Rightarrow> Inl e
           | Inr (jsb_data', ws) \<Rightarrow>
               (case patch_locs entry jsb_data' key val rest of
                  Inl e \<Rightarrow> Inl e
                | Inr (jsb_data'', ws') \<Rightarrow> Inr (jsb_data'', ws @ ws'))))"

text \<open>The body of \<open>for key, val in updates.items()\<close>.\<close>

definition patch_key ::
  "offsets \<Rightarrow> byte list \<Rightarrow> string \<Rightarrow> int \<Rightarrow> error + byte list \<times> warning list" where
  "patch_key tbl jsb_data key val =
     (if key \<in> ignored_keys then Inr (jsb_data, [])
      else case map_of tbl key of
        None \<Rightarrow> Inr (jsb_data, [KeyNotInOffsets key])
      | Some entry \<Rightarrow> patch_locs entry jsb_data key val [''loc'', ''loc2''])"

fun patch_updates ::
  "offsets \<Rightarrow> byte list \<Rightarrow> (string \<times> int) list \<Rightarrow> error + byte list \<times> warning list" where
  "patch_updates tbl jsb_data [] = Inr (jsb_data, [])"
| "patch_updates tbl jsb_data ((key, val) # rest) =
     (case patch_key tbl jsb_data key val of
        Inl e \<Rightarrow> Inl e
      | Inr (jsb_data', ws) \<Rightarrow>
          (case patch_updates tbl jsb_data' rest of
             Inl e \<Rightarrow> Inl e
           | Inr (jsb_data'', ws') \<Rightarrow> Inr (jsb_data'', ws @ ws')))"

text \<open>
  \<open>patch_physical_constraints\<close> on the bytes of the file and the dictionary loaded from
  the JSON file (its items in iteration order). \<open>Inr\<close> carries the buffer written back and
  the warnings printed; \<open>Inl\<close> is the exception caught by the handler, which exits
  without writing.
\<close>

definition patch_physical_constraints ::
  "byte list \<Rightarrow> (string \<times> int) list \<Rightarrow> error + byte list \<times> warning list" where
  "patch_physical_constraints jsb_data updates =
     patch_updates physical_constraints_offsets jsb_data updates"

section \<open>physics\_decode\_jsb.py: the decoder of the two copies and the verifier\<close>

text \<open>
  \<open>_ASCII_OK\<close>: the byte values of \<open>string.ascii_letters + string.digits + "_"\<close>.
\<close>

definition ASCII_OK :: "byte \<Rightarrow> bool" where
  "ASCII_OK b = ((0x61 \<le> b \<and> b \<le> 0x7A) \<or> (0x41 \<le> b \<and> b \<le> 0x5A) \<or>
                 (0x30 \<le> b \<and> b \<le> 0x39) \<or> b = 0x5F)"

function find_indicator :: "byte list \<Rightarrow> nat \<Rightarrow> nat" where
  "find_indicator jsb pos =
     (if pos < length jsb \<and> ASCII_OK (jsb ! pos) then find_indicator jsb (pos + 1) else pos)"
  by pat_completeness auto
termination
  by (relation "measure (\<lambda>(jsb, pos). length jsb - pos)") auto

declare find_indicator.simps [simp del]

definition int_size :: "byte \<Rightarrow> nat option" where
  "int_size ind =
     (if ind = 0x02 then Some 4
      else if ind AND 0x80 \<noteq> 0 \<and> ind AND 0x0F = 0x02 then Some 1
      else None)"

text \<open>\<open>int.from_bytes(blob, "little")\<close>: unsigned, the default of \<open>signed\<close> is False.\<close>

fun from_bytes_little :: "byte list \<Rightarrow> int" where
  "from_bytes_little [] = 0"
| "from_bytes_little (b # bs) = uint b + 256 * from_bytes_little bs"

text \<open>The slice \<open>buf[a:b]\<close> for \<open>0 \<le> a\<close>.\<close>

definition slice :: "'a list \<Rightarrow> nat \<Rightarrow> nat \<Rightarrow> 'a list" where
  "slice buf a b = take (b - a) (drop a buf)"

text \<open>
  \<open>_grab(key, loc)\<close> inside \<open>decode_physical_constraints\<close>: \<open>None\<close> is \<open>Inr None\<close>,
  the IndexError of \<open>jsb[ind_pos]\<close> is \<open>Inl IndexError\<close>.
\<close>

definition grab :: "byte list \<Rightarrow> string \<Rightarrow> nat option \<Rightarrow> error + int option" where
  "grab jsb key loc =
     (case loc of
        None \<Rightarrow> Inr None
      | Some l \<Rightarrow>
          let ind_pos = find_indicator jsb l in
          if length jsb \<le> ind_pos then Inl IndexError
          else
            (case int_size (jsb ! ind_pos) of
               None \<Rightarrow> Inr None
             | Some sz \<Rightarrow>
                 let blob = slice jsb (ind_pos + 1) (ind_pos + 1 + sz) in
                 if length blob \<noteq> sz then Inr None
                 else Inr (Some (from_bytes_little blob))))"

text \<open>
  The loop of \<open>decode_physical_constraints\<close> over the items of the offset table; the two
  dictionaries \<open>obj1\<close> and \<open>obj2\<close> are maps from field name to value.
\<close>

fun decode_items ::
  "byte list \<Rightarrow> offsets \<Rightarrow> (string \<rightharpoonup> int) \<Rightarrow> (string \<rightharpoonup> int)
     \<Rightarrow> error + (string \<rightharpoonup> int) \<times> (string \<rightharpoonup> int)" where
  "decode_items jsb [] obj1 obj2 = Inr (obj1, obj2)"
| "decode_items jsb ((key, offs) # rest) obj1 obj2 =
     (if key \<in> ignored_keys then decode_items jsb rest obj1 obj2
      else
        (case grab jsb key (map_of offs ''loc'') of
           Inl e \<Rightarrow> Inl e
         | Inr obj1_val \<Rightarrow>
             (case grab jsb key (map_of offs ''loc2'') of
                Inl e \<Rightarrow> Inl e
              | Inr obj2_val \<Rightarrow>
                  decode_items jsb rest
                    (case obj1_val of None \<Rightarrow> obj1 | Some v \<Rightarrow> obj1(key \<mapsto> v))
                    (case obj2_val of None \<Rightarrow> obj2 | Some v \<Rightarrow> obj2(key \<mapsto> v)))))"

definition decode_physical_constraints ::
  "byte list \<Rightarrow> error + (string \<rightharpoonup> int) \<times> (string \<rightharpoonup> int)" where
  "decode_physical_constraints jsb =
     decode_items jsb physical_constraints_offsets Map.empty Map.empty"

text \<open>
  \<open>verify_physical_constraints\<close>: the lines it prints and the boolean it returns. The
  argument is the dictionary of desired values (its items in order), or \<open>None\<close> when the
  JSON file does not exist.
\<close>

datatype report =
    DesiredNotFound
  | WARN string "int option" "int option" int
  | FAIL string "int option" "int option" int
  | VerificationSucceeded
  | VerificationFailed

fun verify_items ::
  "(string \<rightharpoonup> int) \<Rightarrow> (string \<rightharpoonup> int) \<Rightarrow> (string \<times> int) list \<Rightarrow> bool
     \<Rightarrow> bool \<times> report list" where
  "verify_items obj1 obj2 [] ok = (ok, [])"
| "verify_items obj1 obj2 ((key, exp) # rest) ok =
     (let v1 = obj1 key; v2 = obj2 key in
      if v1 = Some exp \<or> v2 = Some exp then
        (if v1 \<noteq> v2
         then (case verify_items obj1 obj2 rest ok of
                 (ok', out) \<Rightarrow> (ok', WARN key v1 v2 exp # out))
         else verify_items obj1 obj2 rest ok)
      else
        (case verify_items obj1 obj2 rest False of
           (ok', out) \<Rightarrow> (ok', FAIL key v1 v2 exp # out)))"

definition verify_physical_constraints ::
  "byte list \<Rightarrow> (string \<times> int) list option \<Rightarrow> error + bool \<times> report list" where
  "verify_physical_constraints jsb desired_json =
     (case desired_json of
        None \<Rightarrow> Inr (False, [DesiredNotFound])
      | Some desired \<Rightarrow>
          (case decode_physical_constraints jsb of
             Inl e \<Rightarrow> Inl e
           | Inr (obj1, obj2) \<Rightarrow>
               (case verify_items obj1 obj2 desired True of
                  (ok, out) \<Rightarrow>
                    Inr (ok, out @ [if ok then VerificationSucceeded else VerificationFailed]))))"

section \<open>player\_ratings\_decoder.py: token reader and structural parsers\<close>

subsection \<open>Strings and struct helpers\<close>

text \<open>
  A decoded Python \<open>str\<close> is the list of its code points. \<open>str_of\<close> is a string literal
  of the source. \<open>utf8_replace\<close> is \<open>bytes.decode("utf-8", "replace")\<close>: an ASCII byte
  decodes to itself, a well-formed sequence to its code point, and every maximal
  ill-formed prefix of a sequence to one U+FFFD.
\<close>

type_synonym pystr = "nat list"

definition str_of :: "string \<Rightarrow> pystr" where
  "str_of s = map (\<lambda>c. of_char c) s"

definition bytes_of :: "string \<Rightarrow> byte list" where
  "bytes_of s = map (\<lambda>c. of_char c) s"

definition is_cont :: "byte \<Rightarrow> bool" where
  "is_cont c = (0x80 \<le> c \<and> c \<le> 0xBF)"

fun utf8_replace :: "byte list \<Rightarrow> pystr" where
  "utf8_replace [] = []"
| "utf8_replace (c # rest) =
     (if c < 0x80 then unat c # utf8_replace rest
      else if c < 0xC2 then 0xFFFD # utf8_replace rest
      else if c < 0xE0 then
        (case rest of
           [] \<Rightarrow> [0xFFFD]
         | c2 # rest2 \<Rightarrow>
             if is_cont c2
             then (unat (c AND 0x1F) * 64 + unat (c2 AND 0x3F)) # utf8_replace rest2
             else 0xFFFD # utf8_replace rest)
      else if c < 0xF0 then
        (case rest of
           [] \<Rightarrow> [0xFFFD]
         | c2 # rest2 \<Rightarrow>
             if \<not> is_cont c2 \<or> (if c2 < 0xA0 then c = 0xE0 else c = 0xED)
             then 0xFFFD # utf8_replace rest
             else
               (case rest2 of
                  [] \<Rightarrow> [0xFFFD]
                | c3 # rest3 \<Rightarrow>
                    if is_cont c3
                    then (unat (c AND 0x0F) * 4096 + unat (c2 AND 0x3F) * 64 + unat (c3 AND 0x3F))
                           # utf8_replace rest3
                    else 0xFFFD # utf8_replace rest2))
      else if c < 0xF5 then
        (case rest of
           [] \<Rightarrow> [0xFFFD]
         | c2 # rest2 \<Rightarrow>
             if \<not> is_cont c2 \<or> (if c2 < 0x90 then c = 0xF0 else c = 0xF4)
             then 0xFFFD # utf8_replace rest
             else
               (case rest2 of
                  [] \<Rightarrow> [0xFFFD]
                | c3 # rest3 \<Rightarrow>
                    if \<not> is_cont c3 then 0xFFFD # utf8_replace rest2
                    else
                      (case rest3 of
                         [] \<Rightarrow> [0xFFFD]
                       | c4 # rest4 \<Rightarrow>
                           if is_cont c4
                           then (unat (c AND 0x07) * 262144 + unat (c2 AND 0x3F) * 4096 +
                                 unat (c3 AND 0x3F) * 64 + unat (c4 AND 0x3F)) # utf8_replace rest4
                           else 0xFFFD # utf8_replace rest3)))
      else 0xFFFD # utf8_replace rest)"

text \<open>
  \<open>struct.unpack_from\<close> with the formats \<open><i\<close>, \<open><q\<close>, \<open><I\<close>, \<open><Q\<close> at an offset:
  \<open>None\<close> is struct.error (fewer bytes than the format needs from the offset on).
\<close>

definition unpack_unsigned :: "nat \<Rightarrow> byte list \<Rightarrow> nat \<Rightarrow> int option" where
  "unpack_unsigned w buf off =
     (if length buf < off + w then None
      else Some (from_bytes_little (take w (drop off buf))))"

definition unpack_signed :: "nat \<Rightarrow> byte list \<Rightarrow> nat \<Rightarrow> int option" where
  "unpack_signed w buf off =
     (case unpack_unsigned w buf off of
        None \<Rightarrow> None
      | Some u \<Rightarrow> Some (if u < 2 ^ (8 * w - 1) then u else u - 2 ^ (8 * w)))"

definition i32 :: "byte list \<Rightarrow> int option" where
  "i32 b = unpack_signed 4 b 0"

definition i64 :: "byte list \<Rightarrow> int option" where
  "i64 b = unpack_signed 8 b 0"

definition u32 :: "byte list \<Rightarrow> int option" where
  "u32 b = unpack_unsigned 4 b 0"

subsection \<open>tok\_stream\<close>

datatype tok_typ = I32 | I64 | Str | Ctl

datatype val = IntV int | StrV pystr

type_synonym token = "pystr \<times> tok_typ \<times> val \<times> nat"

text \<open>The text \<open>f"<m0x{vmark:02X}>"\<close> of a control token.\<close>

definition hex_digit :: "nat \<Rightarrow> nat" where
  "hex_digit d = (if d < 10 then 48 + d else 55 + d)"

definition ctl_text :: "byte \<Rightarrow> pystr" where
  "ctl_text vmark =
     str_of ''<m0x'' @ [hex_digit (unat vmark div 16), hex_digit (unat vmark mod 16)] @ str_of ''>''"

text \<open>
  One pass through the body of the \<open>while\<close> loop of \<open>tok_stream\<close> at cursor \<open>i\<close>:
  \<open>Skip i'\<close> is a \<open>continue\<close> with the cursor at \<open>i'\<close>, \<open>Yield\<close> the token yielded
  (its last component is the cursor), \<open>Raise\<close> an exception (\<open>buf[i]\<close> past the end,
  struct.error on a short slice).
\<close>

datatype step = Skip nat | Yield token | Raise error

definition tok_value :: "byte list \<Rightarrow> nat \<Rightarrow> nat \<Rightarrow> step" where
  "tok_value buf i0 klen =
     (let key = utf8_replace (slice buf i0 (i0 + klen));
          i1 = i0 + klen in
      if length buf \<le> i1 then Raise IndexError
      else
        let vmark = buf ! i1; i = i1 + 1 in
        if vmark = 0x02 then
          (case i32 (slice buf i (i + 4)) of
             None \<Rightarrow> Raise StructError
           | Some v \<Rightarrow> Yield (key, I32, IntV v, i + 4))
        else if vmark = 0x03 then
          (case i64 (slice buf i (i + 8)) of
             None \<Rightarrow> Raise StructError
           | Some v \<Rightarrow> Yield (key, I64, IntV v, i + 8))
        else if vmark = 0x08 then
          (case u32 (slice buf i (i + 4)) of
             None \<Rightarrow> Raise StructError
           | Some slen \<Rightarrow>
               Yield (key, Str, StrV (utf8_replace (slice buf (i + 4) (i + 4 + nat slen))),
                      i + 4 + nat slen))
        else if 0x80 \<le> vmark \<and> vmark \<le> 0x8F then
          (let slen = unat (vmark AND 0x0F) in
           Yield (key, Str, StrV (utf8_replace (slice buf i (i + slen))), i + slen))
        else Yield (key, Ctl, StrV (ctl_text vmark), i))"

definition tok_step :: "byte list \<Rightarrow> nat \<Rightarrow> step" where
  "tok_step buf i =
     (if length buf \<le> i then Raise IndexError
      else
        let mark = buf ! i in
        if mark \<in> {0x2A, 0x4A, 0x5A, 0x6A} then
          (if length buf \<le> i + 1 then Raise IndexError
           else
             let klen = buf ! (i + 1) in
             if \<not> (0 < klen \<and> klen \<le> 96) then Skip (i + 2)
             else tok_value buf (i + 2) (unat klen))
        else if 0 < mark \<and> mark \<le> 96 then tok_value buf (i + 1) (unat mark)
        else Skip (i + 1))"

lemma tok_step_Skip: "tok_step buf i = Skip i' \<Longrightarrow> i < i'"
  by (auto simp: tok_step_def tok_value_def Let_def split: if_splits option.splits)

text \<open>
  The generator: its state is the cursor \<open>i\<close> and the bound \<open>n\<close>. \<open>tok_next\<close> is
  \<open>next(ts)\<close>: \<open>Inr (Some token)\<close> for a yield, \<open>Inr None\<close> for StopIteration, \<open>Inl\<close>
  for an exception raised inside the generator. After a yield the generator resumes at
  the token's cursor (the \<open>break\<close> on \<open>i >= n\<close> and the loop test agree there).
\<close>

function tok_next :: "byte list \<Rightarrow> nat \<Rightarrow> nat \<Rightarrow> error + token option" where
  "tok_next buf n i =
     (if i + 2 < n then
        (case tok_step buf i of
           Skip i' \<Rightarrow> tok_next buf n i'
         | Yield t \<Rightarrow> Inr (Some t)
         | Raise e \<Rightarrow> Inl e)
      else Inr None)"
  by pat_completeness auto
termination
  by (relation "measure (\<lambda>(buf, n, i). n - i)") (auto dest: tok_step_Skip)

declare tok_next.simps [simp del]

text \<open>\<open>tok_stream(buf, start, stop)\<close>: the initial state of the generator.\<close>

definition tok_stream :: "byte list \<Rightarrow> nat \<Rightarrow> nat option \<Rightarrow> nat \<times> nat" where
  "tok_stream buf start stop =
     (start, case stop of None \<Rightarrow> length buf | Some s \<Rightarrow> s)"

text \<open>
  \<open>expect(ts, wanted_key, wanted_typ, ctx, buf)\<close>, with \<open>wanted_typ\<close> as the list of the
  allowed types. The result carries the value, the cursor and the generator's next state.
\<close>

definition expect ::
  "byte list \<Rightarrow> nat \<times> nat \<Rightarrow> pystr \<Rightarrow> tok_typ list \<Rightarrow> error + val \<times> nat \<times> (nat \<times> nat)" where
  "expect buf ts wanted_key wanted_typ =
     (case tok_next buf (snd ts) (fst ts) of
        Inl e \<Rightarrow> Inl e
      | Inr None \<Rightarrow> Inl RuntimeError_EOF
      | Inr (Some (k, t, v, cur)) \<Rightarrow>
          if k \<noteq> wanted_key \<or> t \<notin> set wanted_typ then Inl RuntimeError_token_mismatch
          else Inr (v, cur, (cur, snd ts)))"

definition body_start :: "byte list \<Rightarrow> nat \<Rightarrow> byte list \<Rightarrow> error + nat" where
  "body_start buf anchor key =
     (if slice buf anchor (anchor + length key) \<noteq> key then Inl ValueError_anchor
      else
        let cursor = anchor + length key in
        if length buf \<le> cursor then Inl IndexError
        else
          let ctl = buf ! cursor in
          if ctl \<notin> {0xC9, 0x99} then Inl (ValueError_container ctl)
          else Inr (cursor + 1))"

subsection \<open>parse\_expected\_score\<close>

datatype expected_score_object = Expected_score_object pystr val val

text \<open>
  The \<open>for row in range(11)\<close> loop, with the rows still to read as the counter. The
  value of a \<open>str\<close> token is always a string; the branch for another value is the
  TypeError Python would raise on \<open>name[-1]\<close>.
\<close>

fun expected_score_rows ::
  "byte list \<Rightarrow> nat \<Rightarrow> bool \<Rightarrow> nat \<Rightarrow> nat \<times> nat \<Rightarrow> expected_score_object list
     \<Rightarrow> error + expected_score_object list" where
  "expected_score_rows buf stop verbose 0 ts triplets = Inr triplets"
| "expected_score_rows buf stop verbose (Suc rows) ts triplets =
     (case expect buf ts (str_of ''name'') [Str] of
        Inl e \<Rightarrow> Inl e
      | Inr (IntV _, n_pos, ts1) \<Rightarrow> Inl TypeError
      | Inr (StrV name, n_pos, ts1) \<Rightarrow>
          (let (name', ts2) =
                 (if name \<noteq> [] \<and> last name < 32
                  then (if verbose then butlast name else name,
                        tok_stream buf (n_pos - 1) (Some stop))
                  else (name, ts1)) in
           case expect buf ts2 (str_of ''negative_multiplier'') [I32, I64] of
             Inl e \<Rightarrow> Inl e
           | Inr (neg, neg_pos, ts3) \<Rightarrow>
               (case expect buf ts3 (str_of ''positive_multiplier'') [I32, I64] of
                  Inl e \<Rightarrow> Inl e
                | Inr (pos, pos_pos, ts4) \<Rightarrow>
                    expected_score_rows buf stop verbose rows ts4
                      (triplets @ [Expected_score_object name' neg pos]))))"

definition parse_expected_score ::
  "byte list \<Rightarrow> nat \<Rightarrow> nat \<Rightarrow> bool \<Rightarrow> error + expected_score_object list" where
  "parse_expected_score buf start stop verbose =
     (case body_start buf start (bytes_of ''expected_score_data'') of
        Inl e \<Rightarrow> Inl e
      | Inr body \<Rightarrow>
          expected_score_rows buf stop verbose 11 (tok_stream buf body (Some stop)) [])"

subsection \<open>Searching a byte string\<close>

text \<open>
  \<open>data.find(sub, start)\<close>: the lowest index at or after \<open>start\<close> where \<open>sub\<close> occurs,
  \<open>None\<close> for \<open>-1\<close>. \<open>data.index(sub, start)\<close> is the same search and raises ValueError
  where \<open>find\<close> returns \<open>-1\<close>.
\<close>

primrec find_in :: "byte list \<Rightarrow> byte list \<Rightarrow> nat \<Rightarrow> nat option" where
  "find_in sub [] k = (if sub = [] then Some k else None)"
| "find_in sub (x # xs) k =
     (if take (length sub) (x # xs) = sub then Some k else find_in sub xs (k + 1))"

definition bytes_find :: "byte list \<Rightarrow> byte list \<Rightarrow> nat \<Rightarrow> nat option" where
  "bytes_find data sub start =
     (if length data < start then None else find_in sub (drop start data) start)"

lemma find_in_bounds:
  "find_in sub xs k = Some j \<Longrightarrow> k \<le> j \<and> j + length sub \<le> k + length xs"
proof (induction xs arbitrary: k)
  case Nil
  then show ?case by (simp split: if_splits)
next
  case (Cons x xs)
  show ?case
  proof (cases "take (length sub) (x # xs) = sub")
    case True
    then have "length (take (length sub) (x # xs)) = length sub" by simp
    then have "length sub \<le> length (x # xs)" by simp
    then show ?thesis using Cons.prems True by simp
  next
    case False
    then have "find_in sub xs (k + 1) = Some j" using Cons.prems by simp
    from Cons.IH [OF this] show ?thesis by simp
  qed
qed

lemma bytes_find_bounds:
  "bytes_find data sub start = Some j \<Longrightarrow> start \<le> j \<and> j + length sub \<le> length data"
  using find_in_bounds [of sub "drop start data" start j]
  by (auto simp: bytes_find_def split: if_splits)

subsection \<open>parse\_role\_data\<close>

definition NAME_S :: "byte list" where
  "NAME_S = [0x3A, 0x04] @ bytes_of ''name''"

definition VALUE_S :: "byte list" where
  "VALUE_S = [0x05] @ bytes_of ''value''"

definition clean_label :: "byte list \<Rightarrow> pystr" where
  "clean_label raw =
     (if raw = [] then []
      else
        let tag = hd raw in
        utf8_replace
          (if tag = 0x08 \<and> 5 \<le> length raw then drop 5 raw
           else if 0x80 \<le> tag \<or> tag = 0x68 then drop 1 raw
           else dropWhile (\<lambda>b. b < 32) raw))"

text \<open>The loop of \<open>_read_varint\<close>, then the ZigZag decoding \<open>(res >> 1) ^ -(res & 1)\<close>.\<close>

function read_varint_loop :: "byte list \<Rightarrow> nat \<Rightarrow> int \<Rightarrow> nat \<Rightarrow> error + int \<times> nat" where
  "read_varint_loop buf p res shift =
     (if length buf \<le> p then Inl IndexError
      else
        let b = buf ! p;
            res' = res OR push_bit shift (uint (b AND 0x7F)) in
        if b < 0x80 then Inr (res', p + 1)
        else read_varint_loop buf (p + 1) res' (shift + 7))"
  by pat_completeness auto
termination
  by (relation "measure (\<lambda>(buf, p, res, shift). length buf - p)") auto

declare read_varint_loop.simps [simp del]

definition read_varint :: "byte list \<Rightarrow> nat \<Rightarrow> error + int \<times> nat" where
  "read_varint buf p =
     (case read_varint_loop buf p 0 0 of
        Inl e \<Rightarrow> Inl e
      | Inr (res, p') \<Rightarrow> Inr (drop_bit 1 res XOR - (res AND 1), p'))"

text \<open>The value of a coefficient at \<open>p\<close>: the chain on \<open>tag = data[p]\<close>.\<close>

definition role_value :: "byte list \<Rightarrow> nat \<Rightarrow> error + int \<times> nat" where
  "role_value data p =
     (if length data \<le> p then Inl IndexError
      else
        let tag = data ! p in
        if tag = 0x02 then
          (case unpack_signed 4 data (p + 1) of
             None \<Rightarrow> Inl StructError
           | Some v \<Rightarrow> Inr (v, p + 5))
        else if tag = 0x03 then
          (case unpack_signed 8 data (p + 1) of
             None \<Rightarrow> Inl StructError
           | Some v \<Rightarrow> Inr (v, p + 9))
        else if 0x80 \<le> tag \<and> tag \<le> 0xBF then Inr (uint tag - 0x80, p + 1)
        else if 0xC0 \<le> tag \<and> tag \<le> 0xFF then Inr (- (uint tag - 0xC0), p + 1)
        else read_varint data p)"

datatype role_object = Role_object pystr int

text \<open>
  One pass through the body of the main scan up to the decoded coefficient: \<open>RoleDone\<close>
  is either \<open>break\<close> on a label that is not found.
\<close>

datatype role_step = RoleDone | RoleError error | RoleCoeff role_object nat

definition role_step :: "byte list \<Rightarrow> nat \<Rightarrow> role_step" where
  "role_step data cur =
     (case bytes_find data NAME_S cur of
        None \<Rightarrow> RoleDone
      | Some npos \<Rightarrow>
          let lstart = npos + length NAME_S in
          (case bytes_find data VALUE_S lstart of
             None \<Rightarrow> RoleDone
           | Some vpos \<Rightarrow>
               let name = clean_label (slice data lstart vpos);
                   p = vpos + length VALUE_S in
               (case role_value data p of
                  Inl e \<Rightarrow> RoleError e
                | Inr (v, nxt) \<Rightarrow> RoleCoeff (Role_object name v) nxt)))"

lemma read_varint_loop_advances:
  "read_varint_loop buf p res shift = Inr (r, p') \<Longrightarrow> p < p' \<and> p < length buf"
proof (induction buf p res shift rule: read_varint_loop.induct)
  case (1 buf p res shift)
  note unfold = read_varint_loop.simps [of buf p res shift]
  have len: "\<not> length buf \<le> p" using "1.prems" unfold by (auto split: if_splits)
  show ?case
  proof (cases "buf ! p < 0x80")
    case True
    then have "p' = p + 1" using "1.prems" unfold len by (simp add: Let_def)
    then show ?thesis using len by simp
  next
    case False
    then have rec: "read_varint_loop buf (p + 1) (res OR push_bit shift (uint (buf ! p AND 0x7F)))
                 (shift + 7) = Inr (r, p')"
      using "1.prems" unfold len by (simp add: Let_def)
    from "1.IH" [OF len refl refl False rec] len show ?thesis by simp
  qed
qed

lemma role_value_advances:
  "role_value data p = Inr (v, nxt) \<Longrightarrow> p < nxt \<and> p < length data"
  using read_varint_loop_advances [of data p 0 0]
  by (auto simp: role_value_def read_varint_def Let_def split: if_splits option.splits sum.splits)

lemma role_step_advances:
  assumes "role_step data cur = RoleCoeff c nxt"
  shows "cur < nxt \<and> cur < length data"
proof -
  from assms obtain npos vpos v where
    n: "bytes_find data NAME_S cur = Some npos" and
    vp: "bytes_find data VALUE_S (npos + length NAME_S) = Some vpos" and
    rv: "role_value data (vpos + length VALUE_S) = Inr (v, nxt)"
    by (auto simp: role_step_def Let_def split: option.splits sum.splits)
  from bytes_find_bounds [OF n] bytes_find_bounds [OF vp] role_value_advances [OF rv]
  show ?thesis by simp
qed

text \<open>
  The \<open>while True\<close> loop of the main scan with its state \<open>blocks\<close>, \<open>coeffs\<close>, \<open>cur\<close>;
  the result is the state at the \<open>break\<close>.
\<close>

function role_scan ::
  "byte list \<Rightarrow> nat \<Rightarrow> nat \<Rightarrow> role_object list list \<Rightarrow> role_object list \<Rightarrow> nat
     \<Rightarrow> error + role_object list list \<times> role_object list" where
  "role_scan data body stop blocks coeffs cur =
     (case role_step data cur of
        RoleDone \<Rightarrow> Inr (blocks, coeffs)
      | RoleError e \<Rightarrow> Inl e
      | RoleCoeff c nxt \<Rightarrow>
          let coeffs1 = coeffs @ [c];
              blocks' = (if length coeffs1 = 52 then blocks @ [coeffs1] else blocks);
              coeffs' = (if length coeffs1 = 52 then [] else coeffs1) in
          if stop \<le> body + nxt then Inr (blocks', coeffs')
          else role_scan data body stop blocks' coeffs' nxt)"
  by pat_completeness auto
termination
  by (relation "measure (\<lambda>(data, body, stop, blocks, coeffs, cur). length data - cur)")
     (auto dest: role_step_advances)

declare role_scan.simps [simp del]

datatype role_msg = TrailingFragment nat | FinishedRoleData nat

definition role_data_body ::
  "byte list \<Rightarrow> nat \<Rightarrow> nat \<Rightarrow> error + role_object list list \<times> role_msg list" where
  "role_data_body buf body stop =
     (let data = slice buf body stop in
      case role_scan data body stop [] [] 0 of
        Inl e \<Rightarrow> Inl e
      | Inr (blocks, coeffs) \<Rightarrow>
          Inr (blocks,
               (if coeffs \<noteq> [] then [TrailingFragment (length coeffs)] else []) @
               [FinishedRoleData (length blocks)]))"

text \<open>
  \<open>parse_role_data(buf, start, stop, verbose)\<close>: the blocks returned and the two lines
  printed whatever \<open>verbose\<close> is (the trailing-fragment warning and the summary).
\<close>

definition parse_role_data ::
  "byte list \<Rightarrow> nat \<Rightarrow> nat \<Rightarrow> error + role_object list list \<times> role_msg list" where
  "parse_role_data buf start stop =
     (let KEY = bytes_of ''role_data''; klen = length KEY in
      if slice buf start (start + klen) \<noteq> KEY then Inl RuntimeError_key_not_found
      else if length buf \<le> start + klen then Inl IndexError
      else
        let marker = buf ! (start + klen) in
        if marker \<in> {0xC9, 0x99} then role_data_body buf (start + klen + 1) stop
        else if marker = 0x09 then role_data_body buf (start + klen + 5) stop
        else Inl (RuntimeError_unknown_container marker))"

subsection \<open>parse\_role\_lookup\<close>

definition INDEX_SENT :: "byte list" where
  "INDEX_SENT = [0x05] @ bytes_of ''index''"

definition ROLE_SENT :: "byte list" where
  "ROLE_SENT = [0x04] @ bytes_of ''role''"

definition tiny_nibble :: "byte \<Rightarrow> int" where
  "tiny_nibble tag = uint (drop_bit 4 (tag AND 0x7F))"

definition read_int :: "byte list \<Rightarrow> nat \<Rightarrow> error + int \<times> nat" where
  "read_int d p =
     (if length d \<le> p then Inl IndexError
      else
        let tag = d ! p in
        if 0x80 \<le> tag \<and> tag AND 0x0F = 0x02 then Inr (tiny_nibble tag, p + 1)
        else if tag = 0x02 then
          (case unpack_signed 4 d (p + 1) of
             None \<Rightarrow> Inl StructError | Some v \<Rightarrow> Inr (v, p + 5))
        else if tag = 0x03 then
          (case unpack_signed 8 d (p + 1) of
             None \<Rightarrow> Inl StructError | Some v \<Rightarrow> Inr (v, p + 9))
        else if tag = 0x04 then
          (case unpack_unsigned 4 d (p + 1) of
             None \<Rightarrow> Inl StructError | Some v \<Rightarrow> Inr (v, p + 5))
        else if tag = 0x05 then
          (case unpack_unsigned 8 d (p + 1) of
             None \<Rightarrow> Inl StructError | Some v \<Rightarrow> Inr (v, p + 9))
        else if 0x80 \<le> tag then Inr (uint tag - 0x80, p + 1)
        else Inl (ValueError_bad_int_tag tag p))"

datatype role_lookup_object = Role_lookup_object int int

text \<open>
  One pass through the body of the scan loop up to the decoded row. \<open>NoMoreIndex\<close> is the
  \<open>break\<close> on the ValueError of the first \<open>data.index\<close>; the second \<open>data.index\<close> is
  outside the \<open>try\<close>, so its ValueError is raised.
\<close>

datatype lookup_step = NoMoreIndex | LookupError error | LookupRow role_lookup_object nat

definition lookup_step :: "byte list \<Rightarrow> nat \<Rightarrow> lookup_step" where
  "lookup_step data cur =
     (case bytes_find data INDEX_SENT cur of
        None \<Rightarrow> NoMoreIndex
      | Some idx_off \<Rightarrow>
          (case read_int data (idx_off + length INDEX_SENT) of
             Inl e \<Rightarrow> LookupError e
           | Inr (index, pos_after_idx) \<Rightarrow>
               (case bytes_find data ROLE_SENT pos_after_idx of
                  None \<Rightarrow> LookupError ValueError_subsection_not_found
                | Some role_off \<Rightarrow>
                    (case read_int data (role_off + length ROLE_SENT) of
                       Inl e \<Rightarrow> LookupError e
                     | Inr (role, pos_after_role) \<Rightarrow>
                         LookupRow (Role_lookup_object index role) pos_after_role))))"

lemma read_int_advances:
  "read_int d p = Inr (v, nxt) \<Longrightarrow> p < nxt \<and> p < length d"
  by (auto simp: read_int_def Let_def split: if_splits option.splits)

lemma lookup_step_advances:
  assumes "lookup_step data cur = LookupRow r nxt"
  shows "cur < nxt \<and> cur < length data"
proof -
  from assms obtain idx_off index pos_after_idx role_off role where
    i: "bytes_find data INDEX_SENT cur = Some idx_off" and
    ri: "read_int data (idx_off + length INDEX_SENT) = Inr (index, pos_after_idx)" and
    ro: "bytes_find data ROLE_SENT pos_after_idx = Some role_off" and
    rr: "read_int data (role_off + length ROLE_SENT) = Inr (role, nxt)"
    by (auto simp: lookup_step_def split: option.splits sum.splits)
  from bytes_find_bounds [OF i] read_int_advances [OF ri] bytes_find_bounds [OF ro]
    read_int_advances [OF rr]
  show ?thesis by simp
qed

function lookup_scan ::
  "byte list \<Rightarrow> nat option \<Rightarrow> role_lookup_object list \<Rightarrow> nat
     \<Rightarrow> error + role_lookup_object list" where
  "lookup_scan data declared rows cur =
     (case lookup_step data cur of
        NoMoreIndex \<Rightarrow> Inr rows
      | LookupError e \<Rightarrow> Inl e
      | LookupRow r nxt \<Rightarrow>
          let rows' = rows @ [r] in
          if (case declared of None \<Rightarrow> False | Some d \<Rightarrow> d \<le> length rows') then Inr rows'
          else lookup_scan data declared rows' nxt)"
  by pat_completeness auto
termination
  by (relation "measure (\<lambda>(data, declared, rows, cur). length data - cur)")
     (auto dest: lookup_step_advances)

declare lookup_scan.simps [simp del]

definition role_lookup_body ::
  "byte list \<Rightarrow> nat option \<Rightarrow> nat \<Rightarrow> nat \<Rightarrow> error + role_lookup_object list" where
  "role_lookup_body buf declared body stop =
     (let data = slice buf body stop in
      case lookup_scan data declared [] 0 of
        Inl e \<Rightarrow> Inl e
      | Inr rows \<Rightarrow>
          (case declared of
             None \<Rightarrow> Inr rows
           | Some d \<Rightarrow>
               if length rows \<noteq> d then Inl (RuntimeError_row_count d (length rows))
               else Inr rows))"

definition parse_role_lookup ::
  "byte list \<Rightarrow> nat \<Rightarrow> nat \<Rightarrow> error + role_lookup_object list" where
  "parse_role_lookup buf start stop =
     (let KEY = bytes_of ''role_lookup_data'' in
      if slice buf start (start + length KEY) \<noteq> KEY then Inl RuntimeError_key_not_found
      else if length buf \<le> start + length KEY then Inl IndexError
      else
        let ctag = buf ! (start + length KEY) in
        if ctag \<in> {0xC9, 0x99} then role_lookup_body buf None (start + length KEY + 1) stop
        else if ctag = 0x09 then
          (case unpack_unsigned 4 buf (start + length KEY + 1) of
             None \<Rightarrow> Inl StructError
           | Some declared \<Rightarrow>
               role_lookup_body buf (Some (nat declared)) (start + length KEY + 5) stop)
        else Inl (RuntimeError_unknown_container ctag))"

subsection \<open>parse\_start\_value and parse\_version\<close>

definition parse_start_value :: "byte list \<Rightarrow> nat \<Rightarrow> error + int" where
  "parse_start_value buf anchor =
     (let KEY = bytes_of ''start_value''; klen = length KEY in
      if slice buf anchor (anchor + klen) \<noteq> KEY then Inl RuntimeError_key_not_found
      else
        let pos = anchor + klen in
        if length buf \<le> pos then Inl IndexError
        else
          let vmark = buf ! pos in
          if vmark = 0x02 then
            (case unpack_signed 4 buf (pos + 1) of
               None \<Rightarrow> Inl StructError | Some v \<Rightarrow> Inr v)
          else if vmark = 0x03 then
            (case unpack_signed 8 buf (pos + 1) of
               None \<Rightarrow> Inl StructError | Some v \<Rightarrow> Inr v)
          else Inl (RuntimeError_unexpected_value_marker vmark))"

text \<open>\<open>_decode_int\<close> inside \<open>parse_version\<close>.\<close>

definition decode_int :: "byte list \<Rightarrow> nat \<Rightarrow> error + int \<times> nat" where
  "decode_int buf p =
     (if length buf \<le> p then Inl IndexError
      else
        let tag = buf ! p in
        if 0x80 \<le> tag then Inr (uint (tag AND 0x3F), p + 1)
        else if tag = 0x02 then
          (case unpack_signed 4 buf (p + 1) of
             None \<Rightarrow> Inl StructError | Some v \<Rightarrow> Inr (v, p + 5))
        else if tag = 0x03 then
          (case unpack_signed 8 buf (p + 1) of
             None \<Rightarrow> Inl StructError | Some v \<Rightarrow> Inr (v, p + 9))
        else Inl (RuntimeError_unknown_int_tag tag p))"

text \<open>The loop \<open>for k in wanted\<close>; \<open>out\<close> is the dictionary as its items in order.\<close>

fun version_fields ::
  "byte list \<Rightarrow> nat \<Rightarrow> string list \<Rightarrow> (string \<times> int) list
     \<Rightarrow> error + (string \<times> int) list" where
  "version_fields buf pos [] out = Inr out"
| "version_fields buf pos (k # wanted) out =
     (if length buf \<le> pos then Inl IndexError
      else
        let klen = unat (buf ! pos); pos1 = pos + 1 in
        if klen \<noteq> length k then Inl (RuntimeError_unexpected_key_length klen pos)
        else if slice buf pos1 (pos1 + klen) \<noteq> bytes_of k then Inl (RuntimeError_wrong_key pos1)
        else
          (case decode_int buf (pos1 + klen) of
             Inl e \<Rightarrow> Inl e
           | Inr (v, pos2) \<Rightarrow> version_fields buf pos2 wanted (out @ [(k, v)])))"

definition parse_version :: "byte list \<Rightarrow> nat \<Rightarrow> error + (string \<times> int) list" where
  "parse_version buf anchor =
     (let KEY_VERSION = bytes_of ''version'' in
      if slice buf anchor (anchor + length KEY_VERSION) \<noteq> KEY_VERSION
      then Inl RuntimeError_version_anchor
      else
        let pos = anchor + length KEY_VERSION in
        if length buf \<le> pos then Inl IndexError
        else if buf ! pos \<noteq> 0x5A then Inl RuntimeError_version_container
        else
          version_fields buf (pos + 1)
            [''version_major'', ''version_minor'', ''version_release'', ''version_year''] [])"

section \<open>weight\_decoder.py: the value of a key\<close>

text \<open>
  \<open>_le_i32(b)\<close> is \<open>struct.unpack("<i", b)[0]\<close>, which needs exactly four bytes
  (\<open>None\<close> is struct.error). \<open>decode\<close> applies it to the group the pattern
  \<open>\x02(.{4})\<close> captures: the four bytes after the marker 0x02 that follows a key.
\<close>

definition le_i32 :: "byte list \<Rightarrow> int option" where
  "le_i32 b = (if length b \<noteq> 4 then None else unpack_signed 4 b 0)"

section \<open>Analysis of the patcher\<close>

text \<open>
  For the analysis, the nested loops are flattened: \<open>entry_offsets\<close> lists the offsets
  an entry has under the given \<open>loc_key\<close>s, \<open>occurrences\<close> lists, in processing
  order, every (key, value, offset) the patcher reaches (keys that are not ignored and
  are in the table), and \<open>run_occurrences\<close> applies \<open>patch_occurrence\<close> to each in
  turn, keeping the buffer only.
\<close>

definition entry_offsets :: "(string \<times> nat) list \<Rightarrow> string list \<Rightarrow> nat list" where
  "entry_offsets entry loc_keys =
     concat (map (\<lambda>loc_key. case map_of entry loc_key of None \<Rightarrow> [] | Some offset \<Rightarrow> [offset]) loc_keys)"

definition key_occurrences :: "offsets \<Rightarrow> string \<times> int \<Rightarrow> (string \<times> int \<times> nat) list" where
  "key_occurrences tbl = (\<lambda>(key, val).
     if key \<in> ignored_keys then []
     else case map_of tbl key of
       None \<Rightarrow> []
     | Some entry \<Rightarrow> map (\<lambda>offset. (key, val, offset)) (entry_offsets entry [''loc'', ''loc2'']))"

definition occurrences :: "offsets \<Rightarrow> (string \<times> int) list \<Rightarrow> (string \<times> int \<times> nat) list" where
  "occurrences tbl updates = concat (map (key_occurrences tbl) updates)"

fun run_occurrences :: "byte list \<Rightarrow> (string \<times> int \<times> nat) list \<Rightarrow> error + byte list" where
  "run_occurrences jsb_data [] = Inr jsb_data"
| "run_occurrences jsb_data ((key, val, offset) # rest) =
     (case patch_occurrence jsb_data key val offset of
        Inl e \<Rightarrow> Inl e
      | Inr (jsb_data', ws) \<Rightarrow> run_occurrences jsb_data' rest)"

definition buffer_of :: "error + byte list \<times> warning list \<Rightarrow> error + byte list" where
  "buffer_of r = (case r of Inl e \<Rightarrow> Inl e | Inr (b, ws) \<Rightarrow> Inr b)"

lemma buffer_of_simps [simp]:
  "buffer_of (Inl e) = Inl e" "buffer_of (Inr (b, ws)) = Inr b"
  by (simp_all add: buffer_of_def)

lemma run_occurrences_append:
  "run_occurrences b (xs @ ys) =
     (case run_occurrences b xs of Inl e \<Rightarrow> Inl e | Inr b' \<Rightarrow> run_occurrences b' ys)"
  by (induction xs arbitrary: b) (auto split: sum.splits)

lemma patch_locs_run:
  "buffer_of (patch_locs entry b key val lks) =
     run_occurrences b (map (\<lambda>offset. (key, val, offset)) (entry_offsets entry lks))"
proof (induction lks arbitrary: b)
  case Nil
  then show ?case by (simp add: entry_offsets_def)
next
  case (Cons lk lks)
  have tl: "entry_offsets entry (lk # lks) =
      (case map_of entry lk of None \<Rightarrow> [] | Some offset \<Rightarrow> [offset]) @ entry_offsets entry lks"
    by (simp add: entry_offsets_def)
  show ?case
  proof (cases "map_of entry lk")
    case None
    then show ?thesis using Cons.IH [of b] by (simp add: tl)
  next
    case (Some offset)
    show ?thesis
    proof (cases "patch_occurrence b key val offset")
      case (Inl e)
      then show ?thesis using Some by (simp add: tl)
    next
      case (Inr r)
      obtain b' ws where r: "r = (b', ws)" by (cases r)
      show ?thesis using Some Inr r Cons.IH [of b']
        by (cases "patch_locs entry b' key val lks") (auto simp: tl)
    qed
  qed
qed

lemma patch_key_run:
  "buffer_of (patch_key tbl b key val) = run_occurrences b (key_occurrences tbl (key, val))"
  by (simp add: patch_key_def key_occurrences_def patch_locs_run del: patch_locs.simps
        split: option.splits)

lemma patch_updates_run:
  "buffer_of (patch_updates tbl b updates) = run_occurrences b (occurrences tbl updates)"
proof (induction updates arbitrary: b)
  case Nil
  then show ?case by (simp add: occurrences_def)
next
  case (Cons u updates)
  obtain key val where u: "u = (key, val)" by (cases u)
  have split_occ: "occurrences tbl ((key, val) # updates) = key_occurrences tbl (key, val) @ occurrences tbl updates"
    by (simp add: occurrences_def)
  show ?case
  proof (cases "patch_key tbl b key val")
    case (Inl e)
    then show ?thesis using patch_key_run [of tbl b key val, symmetric]
      by (simp add: u split_occ run_occurrences_append)
  next
    case (Inr r)
    obtain b' ws where r: "r = (b', ws)" by (cases r)
    show ?thesis using Inr r patch_key_run [of tbl b key val, symmetric] Cons.IH [of b']
      by (cases "patch_updates tbl b' updates") (auto simp: u split_occ run_occurrences_append)
  qed
qed

lemma to_bytes_length: "to_bytes val = Some bs \<Longrightarrow> length bs = 4"
  by (auto simp: to_bytes_def split: if_splits)

lemma overwrite_length:
  "ip < length b \<Longrightarrow> length bs = 4 \<Longrightarrow>
   length (take (ip + 1) b @ bs @ drop (ip + 1 + 4) b) = max (length b) (ip + 5)"
  by auto

lemma overwrite_nth:
  assumes "ip < length b" "length bs = 4" "p < max (length b) (ip + 5)"
  shows "(take (ip + 1) b @ bs @ drop (ip + 1 + 4) b) ! p =
           (if p \<le> ip then b ! p else if p < ip + 5 then bs ! (p - (ip + 1)) else b ! p)"
proof -
  have l1: "length (take (ip + 1) b) = ip + 1" using assms(1) by simp
  show ?thesis
  proof (cases "p \<le> ip")
    case True
    then show ?thesis using assms by (simp add: nth_append)
  next
    case False
    note np = this
    show ?thesis
    proof (cases "p < ip + 5")
      case True
      then have "p - (ip + 1) < 4" "\<not> p < ip + 1" using np by arith+
      then show ?thesis using assms np True l1 by (simp add: nth_append)
    next
      case False
      then have "p - (ip + 1) - 4 + (ip + 1 + 4) = p" "\<not> p - (ip + 1) < 4" "\<not> p < ip + 1"
        by arith+
      moreover have "ip + 1 + 4 + (p - (ip + 1) - 4) \<le> length b"
        using assms(3) False by simp
      ultimately show ?thesis using assms np False l1
        by (simp add: nth_append add.commute)
    qed
  qed
qed

text \<open>
  \<open>settled b x\<close>: running the occurrence \<open>x\<close> on \<open>b\<close> changes nothing, because its
  indicator is not 0x02 or its four value bytes already hold the value.
\<close>

definition indicator_of :: "string \<times> int \<times> nat \<Rightarrow> nat" where
  "indicator_of = (\<lambda>(key, val, offset). offset + length key)"

definition far :: "nat \<Rightarrow> nat \<Rightarrow> bool" where
  "far i j = (i + 5 \<le> j \<or> j + 5 \<le> i)"

definition settled :: "byte list \<Rightarrow> string \<times> int \<times> nat \<Rightarrow> bool" where
  "settled b = (\<lambda>(key, val, offset).
     let ip = offset + length key in
     ip < length b \<and>
     (b ! ip \<noteq> 0x02 \<or>
      (\<exists>bs. to_bytes val = Some bs \<and> ip + 5 \<le> length b \<and> (\<forall>j<4. b ! (ip + 1 + j) = bs ! j))))"

lemma patch_occurrence_cases:
  assumes "patch_occurrence b key val offset = Inr (b', ws)"
  obtains (skip) "offset + length key < length b" "b ! (offset + length key) \<noteq> 0x02" "b' = b"
      "ws = [IndicatorByte key (b ! (offset + length key))]"
  | (written) bs where "offset + length key < length b" "b ! (offset + length key) = 0x02"
      "to_bytes val = Some bs" "b' = take (offset + length key + 1) b @ bs @ drop (offset + length key + 1 + 4) b"
      "ws = []"
  using assms unfolding patch_occurrence_def Let_def
  by (auto split: if_splits option.splits)

lemma patch_occurrence_frame:
  assumes "patch_occurrence b key val offset = Inr (b', ws)"
  shows "length b \<le> length b'"
    and "p < length b \<Longrightarrow> \<not> (offset + length key < p \<and> p < offset + length key + 5) \<Longrightarrow> b' ! p = b ! p"
proof -
  show "length b \<le> length b'"
    using assms
  proof (cases rule: patch_occurrence_cases)
    case skip
    then show ?thesis by simp
  next
    case (written bs)
    then show ?thesis using overwrite_length [of "offset + length key" b bs] to_bytes_length [of val bs]
      by simp
  qed
  show "b' ! p = b ! p" if "p < length b" "\<not> (offset + length key < p \<and> p < offset + length key + 5)"
    using assms
  proof (cases rule: patch_occurrence_cases)
    case skip
    then show ?thesis by simp
  next
    case (written bs)
    then show ?thesis using overwrite_nth [of "offset + length key" b bs p] to_bytes_length [of val bs] that
      by auto
  qed
qed

lemma patch_occurrence_settles:
  assumes "patch_occurrence b key val offset = Inr (b', ws)"
  shows "settled b' (key, val, offset)"
  using assms
proof (cases rule: patch_occurrence_cases)
  case skip
  then show ?thesis by (simp add: settled_def)
next
  case (written bs)
  let ?ip = "offset + length key"
  have len: "length bs = 4" using written to_bytes_length by blast
  have l: "length b' = max (length b) (?ip + 5)"
    using written overwrite_length [of ?ip b bs] len by simp
  have "\<forall>j<4. b' ! (?ip + 1 + j) = bs ! j"
  proof (intro allI impI)
    fix j :: nat assume "j < 4"
    then show "b' ! (?ip + 1 + j) = bs ! j"
      using overwrite_nth [of ?ip b bs "?ip + 1 + j"] written len by simp
  qed
  then show ?thesis using written l by (auto simp: settled_def Let_def)
qed

lemma patch_occurrence_keeps_settled:
  assumes "patch_occurrence b key' val' offset' = Inr (b', ws)"
    and "settled b (key, val, offset)"
    and "far (offset + length key) (offset' + length key')"
  shows "settled b' (key, val, offset)"
  using assms(1)
proof (cases rule: patch_occurrence_cases)
  case skip
  then show ?thesis using assms(2) by simp
next
  case (written bs')
  let ?ip = "offset + length key"
  let ?ip' = "offset' + length key'"
  have len: "length bs' = 4" using written to_bytes_length by blast
  have l: "length b' = max (length b) (?ip' + 5)"
    using written overwrite_length [of ?ip' b bs'] len by simp
  have same: "b' ! p = b ! p" if "p < length b" "\<not> (?ip' < p \<and> p < ?ip' + 5)" for p
    using patch_occurrence_frame(2) [OF assms(1)] that by blast
  have ip: "?ip < length b" using assms(2) by (simp add: settled_def Let_def)
  have ind: "b' ! ?ip = b ! ?ip" using same [of ?ip] ip assms(3) by (auto simp: far_def)
  show ?thesis
  proof (cases "b ! ?ip = 0x02")
    case False
    then show ?thesis using ip ind l by (simp add: settled_def Let_def)
  next
    case True
    then obtain bs where bs: "to_bytes val = Some bs" "?ip + 5 \<le> length b"
        "\<forall>j<4. b ! (?ip + 1 + j) = bs ! j"
      using assms(2) by (auto simp: settled_def Let_def)
    have "\<forall>j<4. b' ! (?ip + 1 + j) = bs ! j"
    proof (intro allI impI)
      fix j :: nat assume j: "j < 4"
      have "b' ! (?ip + 1 + j) = b ! (?ip + 1 + j)"
        using same [of "?ip + 1 + j"] bs(2) j assms(3) by (auto simp: far_def)
      then show "b' ! (?ip + 1 + j) = bs ! j" using bs(3) j by simp
    qed
    then show ?thesis using bs ip l by (auto simp: settled_def Let_def)
  qed
qed

lemma settled_noop:
  assumes "settled b (key, val, offset)"
  shows "\<exists>ws. patch_occurrence b key val offset = Inr (b, ws)"
proof -
  let ?ip = "offset + length key"
  have ip: "?ip < length b" using assms by (simp add: settled_def Let_def)
  show ?thesis
  proof (cases "b ! ?ip = 0x02")
    case False
    then show ?thesis using ip by (simp add: patch_occurrence_def Let_def)
  next
    case True
    then obtain bs where bs: "to_bytes val = Some bs" "?ip + 5 \<le> length b"
        "\<forall>j<4. b ! (?ip + 1 + j) = bs ! j"
      using assms by (auto simp: settled_def Let_def)
    have len: "length bs = 4" using bs to_bytes_length by blast
    have "take (?ip + 1) b @ bs @ drop (?ip + 1 + 4) b = b"
    proof (rule nth_equalityI)
      show "length (take (?ip + 1) b @ bs @ drop (?ip + 1 + 4) b) = length b"
        using overwrite_length [of ?ip b bs] ip len bs(2) by simp
    next
      fix p assume "p < length (take (?ip + 1) b @ bs @ drop (?ip + 1 + 4) b)"
      then have p: "p < max (length b) (?ip + 5)"
        using overwrite_length [of ?ip b bs] ip len by simp
      show "(take (?ip + 1) b @ bs @ drop (?ip + 1 + 4) b) ! p = b ! p"
      proof (cases "?ip < p \<and> p < ?ip + 5")
        case True
        then have "p = ?ip + 1 + (p - (?ip + 1))" "p - (?ip + 1) < 4" by auto
        then have "b ! p = bs ! (p - (?ip + 1))" using bs(3) by metis
        then show ?thesis using overwrite_nth [OF ip len p] True by simp
      next
        case False
        then show ?thesis using overwrite_nth [OF ip len p] by auto
      qed
    qed
    then show ?thesis using True ip bs(1) by (simp add: patch_occurrence_def Let_def)
  qed
qed

text \<open>Two occurrences are compatible when they are the same or their indicators are far apart.\<close>

definition compatible :: "string \<times> int \<times> nat \<Rightarrow> string \<times> int \<times> nat \<Rightarrow> bool" where
  "compatible x y = (x = y \<or> far (indicator_of x) (indicator_of y))"

lemma run_occurrences_settles:
  assumes "run_occurrences b ops = Inr b'"
    and "\<forall>x\<in>set ops. \<forall>y\<in>set ops. compatible x y"
  shows "(\<forall>x\<in>set ops. settled b' x) \<and>
         (\<forall>z. settled b z \<and> (\<forall>x\<in>set ops. compatible z x) \<longrightarrow> settled b' z)"
  using assms
proof (induction ops arbitrary: b)
  case Nil
  then show ?case by simp
next
  case (Cons x ops)
  obtain key val offset where x: "x = (key, val, offset)" by (cases x)
  from Cons.prems(1) obtain b1 ws where
    step: "patch_occurrence b key val offset = Inr (b1, ws)" and
    rest: "run_occurrences b1 ops = Inr b'"
    by (auto simp: x split: sum.splits)
  have compat: "\<forall>x\<in>set ops. \<forall>y\<in>set ops. compatible x y"
    using Cons.prems(2) by simp
  note IH = Cons.IH [OF rest compat]
  have keep: "settled b1 z" if "settled b z" "compatible z x" for z
  proof (cases "z = x")
    case True
    then show ?thesis using patch_occurrence_settles [OF step] x by simp
  next
    case False
    obtain k v off where z: "z = (k, v, off)" by (cases z)
    from False that(2) have "far (off + length k) (offset + length key)"
      by (auto simp: compatible_def indicator_of_def z x)
    then show ?thesis using patch_occurrence_keeps_settled [OF step] that(1) z by blast
  qed
  have x1: "settled b1 x" using patch_occurrence_settles [OF step] x by simp
  have xc: "\<forall>y\<in>set ops. compatible x y" using Cons.prems(2) by simp
  have "settled b' x" using IH x1 xc by blast
  moreover have "\<forall>y\<in>set ops. settled b' y" using IH by blast
  moreover have "settled b' z" if "settled b z" "\<forall>y\<in>set (x # ops). compatible z y" for z
  proof -
    have "settled b1 z" using keep that by simp
    moreover have "\<forall>y\<in>set ops. compatible z y" using that(2) by simp
    ultimately show ?thesis using IH by blast
  qed
  ultimately show ?case by simp
qed

lemma run_occurrences_noop:
  "\<forall>x\<in>set ops. settled b x \<Longrightarrow> run_occurrences b ops = Inr b"
proof (induction ops)
  case Nil
  then show ?case by simp
next
  case (Cons x ops)
  obtain key val offset where x: "x = (key, val, offset)" by (cases x)
  from Cons.prems have "settled b (key, val, offset)" by (simp add: x)
  then obtain ws where "patch_occurrence b key val offset = Inr (b, ws)"
    using settled_noop by blast
  then show ?case using Cons by (simp add: x)
qed

lemma run_occurrences_idempotent:
  assumes "run_occurrences b ops = Inr b'"
    and "\<forall>x\<in>set ops. \<forall>y\<in>set ops. compatible x y"
  shows "run_occurrences b' ops = Inr b'"
  using run_occurrences_settles [OF assms] run_occurrences_noop by blast

text \<open>Bytes outside every value window reached keep their value; the buffer never shrinks.\<close>

lemma run_occurrences_frame:
  assumes "run_occurrences b ops = Inr b'"
  shows "length b \<le> length b' \<and>
     (\<forall>p<length b. (\<forall>x\<in>set ops. \<not> (indicator_of x < p \<and> p < indicator_of x + 5)) \<longrightarrow> b' ! p = b ! p)"
  using assms
proof (induction ops arbitrary: b)
  case Nil
  then show ?case by simp
next
  case (Cons x ops)
  obtain key val offset where x: "x = (key, val, offset)" by (cases x)
  from Cons.prems(1) obtain b1 ws where
    step: "patch_occurrence b key val offset = Inr (b1, ws)" and
    rest: "run_occurrences b1 ops = Inr b'"
    by (auto simp: x split: sum.splits)
  note IH = Cons.IH [OF rest]
  note fr = patch_occurrence_frame [OF step]
  have len: "length b \<le> length b'" using IH fr(1) by simp
  have "b' ! p = b ! p"
    if "p < length b" "\<forall>y\<in>set (x # ops). \<not> (indicator_of y < p \<and> p < indicator_of y + 5)" for p
  proof -
    have "b1 ! p = b ! p" using fr(2) [of p] that by (simp add: x indicator_of_def)
    moreover have "b' ! p = b1 ! p" using IH that fr(1) by simp
    ultimately show ?thesis by simp
  qed
  then show ?case using len by blast
qed

text \<open>
  A linear check that the indicator positions of a table are pairwise at least five
  bytes apart: in table order the \<open>loc\<close> indicators rise by at least 5 and stay below
  \<open>mid\<close>, the \<open>loc2\<close> indicators rise by at least 5 from \<open>mid\<close> on.
\<close>

fun chain_ok :: "nat \<Rightarrow> nat \<Rightarrow> nat \<Rightarrow> offsets \<Rightarrow> bool" where
  "chain_ok lo1 mid lo2 [] = True"
| "chain_ok lo1 mid lo2 ((key, entry) # rest) =
     (case entry_offsets entry [''loc'', ''loc2''] of
        [a, b] \<Rightarrow> lo1 \<le> a + length key \<and> a + length key + 5 \<le> mid \<and>
                  mid \<le> b + length key \<and> lo2 \<le> b + length key \<and>
                  chain_ok (a + length key + 5) mid (b + length key + 5) rest
      | _ \<Rightarrow> False)"

lemma chain_ok_bounds:
  "chain_ok lo1 mid lo2 tbl \<Longrightarrow> map_of tbl key = Some entry \<Longrightarrow>
   offset \<in> set (entry_offsets entry [''loc'', ''loc2'']) \<Longrightarrow>
   (lo1 \<le> offset + length key \<and> offset + length key + 5 \<le> mid) \<or>
   (lo2 \<le> offset + length key \<and> mid \<le> offset + length key)"
proof (induction lo1 mid lo2 tbl rule: chain_ok.induct)
  case (1 lo1 mid lo2)
  then show ?case by simp
next
  case (2 lo1 mid lo2 k e rest)
  from "2.prems"(1) obtain a b where ab: "entry_offsets e [''loc'', ''loc2''] = [a, b]"
    and bnd: "lo1 \<le> a + length k" "a + length k + 5 \<le> mid" "mid \<le> b + length k" "lo2 \<le> b + length k"
    and rest: "chain_ok (a + length k + 5) mid (b + length k + 5) rest"
    by (auto split: list.splits)
  show ?case
  proof (cases "key = k")
    case True
    then have "entry = e" using "2.prems"(2) by simp
    then have "offset = a \<or> offset = b" using "2.prems"(3) ab by simp
    then show ?thesis using bnd True by auto
  next
    case False
    then have "map_of rest key = Some entry" using "2.prems"(2) by simp
    from "2.IH" [OF ab refl refl rest this "2.prems"(3)] bnd show ?thesis by auto
  qed
qed

lemma chain_ok_spaced:
  "chain_ok lo1 mid lo2 tbl \<Longrightarrow> map_of tbl key = Some entry \<Longrightarrow> map_of tbl key' = Some entry' \<Longrightarrow>
   offset \<in> set (entry_offsets entry [''loc'', ''loc2'']) \<Longrightarrow>
   offset' \<in> set (entry_offsets entry' [''loc'', ''loc2'']) \<Longrightarrow>
   (key = key' \<and> offset = offset') \<or> far (offset + length key) (offset' + length key')"
proof (induction lo1 mid lo2 tbl rule: chain_ok.induct)
  case (1 lo1 mid lo2)
  then show ?case by simp
next
  case (2 lo1 mid lo2 k e rest)
  from "2.prems"(1) obtain a b where ab: "entry_offsets e [''loc'', ''loc2''] = [a, b]"
    and bnd: "lo1 \<le> a + length k" "a + length k + 5 \<le> mid" "mid \<le> b + length k" "lo2 \<le> b + length k"
    and rest: "chain_ok (a + length k + 5) mid (b + length k + 5) rest"
    by (auto split: list.splits)
  consider (both) "key = k" "key' = k" | (left) "key = k" "key' \<noteq> k"
    | (right) "key \<noteq> k" "key' = k" | (none) "key \<noteq> k" "key' \<noteq> k" by blast
  then show ?case
  proof cases
    case both
    then have "entry = e" "entry' = e" using "2.prems" by simp_all
    then have "offset = a \<or> offset = b" "offset' = a \<or> offset' = b" using "2.prems" ab by simp_all
    then show ?thesis using bnd both by (auto simp: far_def)
  next
    case left
    then have "entry = e" and m: "map_of rest key' = Some entry'" using "2.prems" by simp_all
    then have o: "offset = a \<or> offset = b" using "2.prems" ab by simp
    from chain_ok_bounds [OF rest m "2.prems"(5)] o bnd left show ?thesis
      by (auto simp: far_def)
  next
    case right
    then have "entry' = e" and m: "map_of rest key = Some entry" using "2.prems" by simp_all
    then have o: "offset' = a \<or> offset' = b" using "2.prems" ab by simp
    from chain_ok_bounds [OF rest m "2.prems"(4)] o bnd right show ?thesis
      by (auto simp: far_def)
  next
    case none
    then have "map_of rest key = Some entry" "map_of rest key' = Some entry'" using "2.prems" by simp_all
    from "2.IH" [OF ab refl refl rest this "2.prems"(4,5)] show ?thesis .
  qed
qed

lemma table_chain_ok: "chain_ok 0 2850 0 physical_constraints_offsets"
  unfolding physical_constraints_offsets_def
  by (simp add: entry_offsets_def)

lemma occurrences_mem:
  assumes "x \<in> set (occurrences tbl updates)"
  shows "\<exists>key val entry offset. x = (key, val, offset) \<and> (key, val) \<in> set updates \<and>
    key \<notin> ignored_keys \<and> map_of tbl key = Some entry \<and>
    offset \<in> set (entry_offsets entry [''loc'', ''loc2''])"
proof -
  from assms obtain u where u: "u \<in> set updates" "x \<in> set (key_occurrences tbl u)"
    by (auto simp: occurrences_def)
  obtain key val where kv: "u = (key, val)" by (cases u)
  show ?thesis
  proof (cases "map_of tbl key")
    case None
    then show ?thesis using u kv by (auto simp: key_occurrences_def split: if_splits)
  next
    case (Some entry)
    then show ?thesis using u kv by (auto simp: key_occurrences_def split: if_splits)
  qed
qed

lemma occurrences_compatible:
  assumes "chain_ok lo1 mid lo2 tbl" "distinct (map fst updates)"
    and "x \<in> set (occurrences tbl updates)" "y \<in> set (occurrences tbl updates)"
  shows "compatible x y"
proof -
  from assms(3) obtain key val entry offset where x: "x = (key, val, offset)"
    "(key, val) \<in> set updates" "map_of tbl key = Some entry"
    "offset \<in> set (entry_offsets entry [''loc'', ''loc2''])"
    using occurrences_mem by blast
  from assms(4) obtain key' val' entry' offset' where y: "y = (key', val', offset')"
    "(key', val') \<in> set updates" "map_of tbl key' = Some entry'"
    "offset' \<in> set (entry_offsets entry' [''loc'', ''loc2''])"
    using occurrences_mem by blast
  from chain_ok_spaced [OF assms(1) x(3) y(3) x(4) y(4)]
  show ?thesis
  proof
    assume same: "key = key' \<and> offset = offset'"
    then have "val = val'" using x(2) y(2) assms(2) by (metis eq_key_imp_eq_value)
    then show ?thesis using same x(1) y(1) by (simp add: compatible_def)
  next
    assume "far (offset + length key) (offset' + length key')"
    then show ?thesis using x(1) y(1) by (simp add: compatible_def indicator_of_def)
  qed
qed

lemma buffer_of_Inr: "buffer_of r = Inr b \<longleftrightarrow> (\<exists>ws. r = Inr (b, ws))"
  by (cases r) (auto simp: buffer_of_def)

lemma first_entry: "map_of physical_constraints_offsets ''acceleration_scaler'' = Some [(''loc'', 22), (''loc2'', 2845)]"
  by (simp add: physical_constraints_offsets_def)

lemma patch_example:
  "patch_physical_constraints
      (replicate 41 0 @ [0x02, 9, 9, 9, 9] @ replicate 2818 0 @ [0x02, 9, 9, 9, 9])
      [(''acceleration_scaler'', 258)] =
    Inr (replicate 41 0 @ [0x02, 2, 1, 0, 0] @ replicate 2818 0 @ [0x02, 2, 1, 0, 0], [])"
  by (simp add: patch_physical_constraints_def patch_key_def ignored_keys_def first_entry
      patch_occurrence_def to_bytes_def nth_append)


text \<open>The field a warning names, and the byte ranges (key text, indicator and value) of the
  occurrences of the ignored version fields.\<close>

fun warning_key :: "warning \<Rightarrow> string" where
  "warning_key (KeyNotInOffsets key) = key"
| "warning_key (IndicatorByte key b) = key"

definition version_regions :: "offsets \<Rightarrow> (nat \<times> nat) list" where
  "version_regions tbl = concat (map (\<lambda>(key, entry).
     if key \<in> ignored_keys
     then map (\<lambda>offset. (offset, offset + length key + 5)) (entry_offsets entry [''loc'', ''loc2''])
     else []) tbl)"

definition windows_clear :: "offsets \<Rightarrow> (nat \<times> nat) list \<Rightarrow> bool" where
  "windows_clear tbl regions = list_all (\<lambda>(key, entry).
     key \<in> ignored_keys \<or>
     list_all (\<lambda>offset.
        list_all (\<lambda>(lo, hi). offset + length key + 5 \<le> lo \<or> hi \<le> offset + length key + 1) regions)
       (entry_offsets entry [''loc'', ''loc2''])) tbl"

lemma patch_locs_warnings:
  "patch_locs entry b key val lks = Inr (b', ws) \<Longrightarrow> \<forall>w\<in>set ws. warning_key w = key"
proof (induction lks arbitrary: b ws)
  case Nil
  then show ?case by simp
next
  case (Cons lk lks)
  show ?case
  proof (cases "map_of entry lk")
    case None
    then show ?thesis using Cons by simp
  next
    case (Some offset)
    with Cons.prems obtain b1 ws1 ws2 where
      s: "patch_occurrence b key val offset = Inr (b1, ws1)"
         "patch_locs entry b1 key val lks = Inr (b', ws2)" "ws = ws1 @ ws2"
      by (auto split: sum.splits)
    have "\<forall>w\<in>set ws1. warning_key w = key"
      using s(1) by (cases rule: patch_occurrence_cases) auto
    then show ?thesis using Cons.IH [OF s(2)] s(3) by auto
  qed
qed

lemma patch_key_warnings:
  "patch_key tbl b key val = Inr (b', ws) \<Longrightarrow> \<forall>w\<in>set ws. warning_key w \<notin> ignored_keys"
  using patch_locs_warnings [of _ b key val "[''loc'', ''loc2'']" b' ws]
  by (auto simp: patch_key_def simp del: patch_locs.simps split: if_splits option.splits)

lemma patch_updates_warnings:
  "patch_updates tbl b updates = Inr (b', ws) \<Longrightarrow> \<forall>w\<in>set ws. warning_key w \<notin> ignored_keys"
proof (induction updates arbitrary: b ws)
  case Nil
  then show ?case by simp
next
  case (Cons u updates)
  obtain key val where u: "u = (key, val)" by (cases u)
  from Cons.prems obtain b1 ws1 ws2 where
    s: "patch_key tbl b key val = Inr (b1, ws1)"
       "patch_updates tbl b1 updates = Inr (b', ws2)" "ws = ws1 @ ws2"
    by (auto simp: u split: sum.splits)
  show ?case using patch_key_warnings [OF s(1)] Cons.IH [OF s(2)] s(3) by auto
qed

lemma version_bytes_untouched:
  assumes clear: "windows_clear tbl (version_regions tbl)"
    and run: "patch_updates tbl b updates = Inr (b', ws)"
    and key: "key \<in> ignored_keys" "map_of tbl key = Some entry"
      "offset \<in> set (entry_offsets entry [''loc'', ''loc2''])"
    and p: "offset \<le> p" "p < offset + length key + 5" "p < length b"
  shows "b' ! p = b ! p"
proof -
  have reg: "(offset, offset + length key + 5) \<in> set (version_regions tbl)"
    using key map_of_SomeD [OF key(2)] by (force simp: version_regions_def)
  have r: "run_occurrences b (occurrences tbl updates) = Inr b'"
    using run patch_updates_run [of tbl b updates] by simp
  have "\<not> (indicator_of x < p \<and> p < indicator_of x + 5)" if "x \<in> set (occurrences tbl updates)" for x
  proof -
    from occurrences_mem [OF that] obtain k v e off where x: "x = (k, v, off)"
      "k \<notin> ignored_keys" "map_of tbl k = Some e" "off \<in> set (entry_offsets e [''loc'', ''loc2''])"
      by blast
    have "(k, e) \<in> set tbl" using x(3) by (rule map_of_SomeD)
    then have "off + length k + 5 \<le> offset \<or> offset + length key + 5 \<le> off + length k + 1"
      using clear x(2,4) reg by (fastforce simp: windows_clear_def list_all_iff)
    then show ?thesis using p by (auto simp: x(1) indicator_of_def)
  qed
  then show ?thesis using run_occurrences_frame [OF r] p(3) by blast
qed

lemma table_version_regions:
  "version_regions physical_constraints_offsets =
     [(1803, 1821), (4626, 4644), (1818, 1836), (4641, 4659),
      (1833, 1853), (4656, 4676), (1850, 1867), (4673, 4690)]"
  unfolding physical_constraints_offsets_def
  by (simp add: version_regions_def ignored_keys_def entry_offsets_def)

lemma table_windows_clear:
  "windows_clear physical_constraints_offsets (version_regions physical_constraints_offsets)"
  unfolding table_version_regions
  unfolding physical_constraints_offsets_def
  by (simp add: windows_clear_def ignored_keys_def entry_offsets_def)

lemma version_keys_ignored:
  "{''version_major'', ''version_minor'', ''version_release'', ''version_year''} = ignored_keys"
  by (auto simp: ignored_keys_def)

lemma version_entries:
  "map_of physical_constraints_offsets ''version_major'' = Some [(''loc'', 0x0000070B), (''loc2'', 0x00001212)]"
  "map_of physical_constraints_offsets ''version_minor'' = Some [(''loc'', 0x0000071A), (''loc2'', 0x00001221)]"
  "map_of physical_constraints_offsets ''version_release'' = Some [(''loc'', 0x00000729), (''loc2'', 0x00001230)]"
  "map_of physical_constraints_offsets ''version_year'' = Some [(''loc'', 0x0000073A), (''loc2'', 0x00001241)]"
  by (simp_all add: physical_constraints_offsets_def)

lemma version_patch_example:
  "patch_physical_constraints
      (replicate 41 0 @ [0x02, 9, 9, 9, 9] @ replicate 1816 0 @ [0x02, 8, 8, 8, 8] @
       replicate 997 0 @ [0x02, 9, 9, 9, 9])
      [(''version_year'', 25), (''acceleration_scaler'', 258)] =
    Inr (replicate 41 0 @ [0x02, 2, 1, 0, 0] @ replicate 1816 0 @ [0x02, 8, 8, 8, 8] @
         replicate 997 0 @ [0x02, 2, 1, 0, 0], [])"
  by (simp add: patch_physical_constraints_def patch_key_def ignored_keys_def first_entry
      patch_occurrence_def to_bytes_def nth_append)

section \<open>Claims about the patcher\<close>













text \<open>
  C3: the evaluation of the patcher on a buffer that ends right after an indicator byte
  0x02 (at position 5653, the \<open>loc2\<close> indicator of \<open>walk_speed\<close>): the slice
  assignment appends the four value bytes and the buffer written back is 5658 bytes
  long, not 5654.
\<close>

theorem patch_grows_truncated_buffer:
  "patch_physical_constraints (replicate 5653 0 @ [0x02]) [(''walk_speed'', 1)] =
     Inr (replicate 5653 0 @ [0x02, 1, 0, 0, 0], [IndicatorByte ''walk_speed'' 0]) \<and>
   length (replicate 5653 (0 :: byte) @ [0x02]) = 5654 \<and>
   length (replicate 5653 (0 :: byte) @ [0x02, 1, 0, 0, 0]) = 5658"
  by (simp add: patch_physical_constraints_def patch_key_def ignored_keys_def
      physical_constraints_offsets_def
      patch_occurrence_def to_bytes_def nth_append)

text \<open>
  C8: patching the result of a successful patch again, with the same edits (a dictionary:
  its keys are distinct), succeeds and gives the same buffer.
\<close>

theorem patch_idempotent:
  assumes "distinct (map fst updates)"
    and "patch_physical_constraints jsb_data updates = Inr (jsb_data', ws)"
  shows "\<exists>ws'. patch_physical_constraints jsb_data' updates = Inr (jsb_data', ws')"
proof -
  let ?ops = "occurrences physical_constraints_offsets updates"
  have "run_occurrences jsb_data ?ops = Inr jsb_data'"
    using assms(2) patch_updates_run [of physical_constraints_offsets jsb_data updates]
    by (simp add: patch_physical_constraints_def)
  moreover have "\<forall>x\<in>set ?ops. \<forall>y\<in>set ?ops. compatible x y"
    using occurrences_compatible [OF table_chain_ok assms(1)] by blast
  ultimately have "run_occurrences jsb_data' ?ops = Inr jsb_data'"
    by (rule run_occurrences_idempotent)
  then have "buffer_of (patch_updates physical_constraints_offsets jsb_data' updates) = Inr jsb_data'"
    by (simp add: patch_updates_run)
  then show ?thesis by (simp add: buffer_of_Inr patch_physical_constraints_def)
qed

theorem patch_idempotent_witness:
  "distinct (map fst [(''acceleration_scaler'', 258 :: int)]) \<and>
   patch_physical_constraints
      (replicate 41 0 @ [0x02, 9, 9, 9, 9] @ replicate 2818 0 @ [0x02, 9, 9, 9, 9])
      [(''acceleration_scaler'', 258)] =
    Inr (replicate 41 0 @ [0x02, 2, 1, 0, 0] @ replicate 2818 0 @ [0x02, 2, 1, 0, 0], []) \<and>
   (\<exists>ws'. patch_physical_constraints
      (replicate 41 0 @ [0x02, 2, 1, 0, 0] @ replicate 2818 0 @ [0x02, 2, 1, 0, 0])
      [(''acceleration_scaler'', 258)] =
    Inr (replicate 41 0 @ [0x02, 2, 1, 0, 0] @ replicate 2818 0 @ [0x02, 2, 1, 0, 0], ws'))"
proof -
  have d: "distinct (map fst [(''acceleration_scaler'', 258 :: int)])" by simp
  show ?thesis using d patch_example patch_idempotent [OF d patch_example] by simp
qed

text \<open>
  C10: each of the four version fields has its two offsets in the table; an edit for it is
  skipped with the buffer unchanged and without a warning; and no successful patch,
  whatever the edits, changes a byte of a version field's occurrence (key text,
  indicator, four value bytes) or gives a warning that names a version field.
\<close>

theorem version_fields_never_patched:
  assumes "key \<in> {''version_major'', ''version_minor'', ''version_release'', ''version_year''}"
  shows "(\<exists>entry loc loc2. map_of physical_constraints_offsets key = Some entry \<and>
            entry_offsets entry [''loc'', ''loc2''] = [loc, loc2]) \<and>
         patch_key physical_constraints_offsets jsb_data key val = Inr (jsb_data, []) \<and>
         (patch_physical_constraints jsb_data updates = Inr (jsb_data', ws) \<longrightarrow>
            (\<forall>w\<in>set ws. warning_key w \<noteq> key) \<and>
            (\<forall>entry offset p.
               map_of physical_constraints_offsets key = Some entry \<and>
               offset \<in> set (entry_offsets entry [''loc'', ''loc2'']) \<and>
               offset \<le> p \<and> p < offset + length key + 5 \<and> p < length jsb_data
               \<longrightarrow> jsb_data' ! p = jsb_data ! p))"
proof -
  have ign: "key \<in> ignored_keys" using assms version_keys_ignored by simp
  have present: "\<exists>entry loc loc2. map_of physical_constraints_offsets key = Some entry \<and>
            entry_offsets entry [''loc'', ''loc2''] = [loc, loc2]"
    using assms version_entries by (auto simp: entry_offsets_def)
  have silent: "patch_key physical_constraints_offsets jsb_data key val = Inr (jsb_data, [])"
    using ign by (simp add: patch_key_def)
  have whole: "(\<forall>w\<in>set ws. warning_key w \<noteq> key) \<and>
            (\<forall>entry offset p.
               map_of physical_constraints_offsets key = Some entry \<and>
               offset \<in> set (entry_offsets entry [''loc'', ''loc2'']) \<and>
               offset \<le> p \<and> p < offset + length key + 5 \<and> p < length jsb_data
               \<longrightarrow> jsb_data' ! p = jsb_data ! p)"
    if run: "patch_physical_constraints jsb_data updates = Inr (jsb_data', ws)"
  proof -
    have r: "patch_updates physical_constraints_offsets jsb_data updates = Inr (jsb_data', ws)"
      using run by (simp add: patch_physical_constraints_def)
    have "\<forall>w\<in>set ws. warning_key w \<noteq> key"
      using patch_updates_warnings [OF r] ign by blast
    moreover have "\<forall>entry offset p.
               map_of physical_constraints_offsets key = Some entry \<and>
               offset \<in> set (entry_offsets entry [''loc'', ''loc2'']) \<and>
               offset \<le> p \<and> p < offset + length key + 5 \<and> p < length jsb_data
               \<longrightarrow> jsb_data' ! p = jsb_data ! p"
      using version_bytes_untouched [OF table_windows_clear r ign] by blast
    ultimately show ?thesis by blast
  qed
  show ?thesis using present silent whole by blast
qed

theorem version_fields_never_patched_witness:
  "''version_year'' \<in> {''version_major'', ''version_minor'', ''version_release'', ''version_year''} \<and>
   map_of physical_constraints_offsets ''version_year'' = Some [(''loc'', 1850), (''loc2'', 4673)] \<and>
   patch_key physical_constraints_offsets [0x02, 1] ''version_year'' 25 = Inr ([0x02, 1], []) \<and>
   patch_physical_constraints
      (replicate 41 0 @ [0x02, 9, 9, 9, 9] @ replicate 1816 0 @ [0x02, 8, 8, 8, 8] @
       replicate 997 0 @ [0x02, 9, 9, 9, 9])
      [(''version_year'', 25), (''acceleration_scaler'', 258)] =
    Inr (replicate 41 0 @ [0x02, 2, 1, 0, 0] @ replicate 1816 0 @ [0x02, 8, 8, 8, 8] @
         replicate 997 0 @ [0x02, 2, 1, 0, 0], []) \<and>
   (replicate 41 0 @ [0x02, 2, 1, 0, 0] @ replicate 1816 0 @ [0x02, 8, 8, 8, 8] @
         replicate 997 0 @ [0x02, 2, 1, 0, 0 :: byte]) ! 1863 = 8"
proof -
  let ?B = "replicate 41 0 @ [0x02, 9, 9, 9, 9] @ replicate 1816 0 @ [0x02, 8, 8, 8, 8] @
       replicate 997 0 @ [0x02, 9, 9, 9, 9 :: byte]"
  let ?B' = "replicate 41 0 @ [0x02, 2, 1, 0, 0] @ replicate 1816 0 @ [0x02, 8, 8, 8, 8] @
         replicate 997 0 @ [0x02, 2, 1, 0, 0 :: byte]"
  have k: "''version_year'' \<in> {''version_major'', ''version_minor'', ''version_release'', ''version_year''}"
    by simp
  note t = version_fields_never_patched [OF k, where jsb_data = ?B and val = 25
      and updates = "[(''version_year'', 25), (''acceleration_scaler'', 258)]"
      and jsb_data' = ?B' and ws = "[]"]
  have off: "1850 \<in> set (entry_offsets [(''loc'', 1850), (''loc2'', 4673)] [''loc'', ''loc2''])"
    by (simp add: entry_offsets_def)
  note q = t [THEN conjunct2, THEN conjunct2, THEN mp, OF version_patch_example,
      THEN conjunct2, rule_format, of "[(''loc'', 1850), (''loc2'', 4673)]" 1850 1863]
  have "?B' ! 1863 = ?B ! 1863"
    by (rule q) (simp add: version_entries off)
  moreover have "?B ! 1863 = 8" by (simp add: nth_append)
  moreover have "patch_key physical_constraints_offsets [0x02, 1] ''version_year'' 25 = Inr ([0x02, 1], [])"
    using version_fields_never_patched [OF k, where jsb_data = "[0x02, 1]" and val = 25] by blast
  ultimately show ?thesis using k version_entries(4) version_patch_example by simp
qed

section \<open>Claims about the verifier of physical\_constraints\<close>

text \<open>
  For the analysis: what one item of the desired values contributes to the printed lines,
  and whether it passes.
\<close>

definition field_report :: "(string \<rightharpoonup> int) \<Rightarrow> (string \<rightharpoonup> int) \<Rightarrow> string \<times> int \<Rightarrow> report list" where
  "field_report obj1 obj2 = (\<lambda>(key, exp).
     if obj1 key = Some exp \<or> obj2 key = Some exp
     then (if obj1 key \<noteq> obj2 key then [WARN key (obj1 key) (obj2 key) exp] else [])
     else [FAIL key (obj1 key) (obj2 key) exp])"

definition field_passes :: "(string \<rightharpoonup> int) \<Rightarrow> (string \<rightharpoonup> int) \<Rightarrow> string \<times> int \<Rightarrow> bool" where
  "field_passes obj1 obj2 = (\<lambda>(key, exp). obj1 key = Some exp \<or> obj2 key = Some exp)"

lemma verify_items_eq:
  "verify_items obj1 obj2 desired ok =
     (ok \<and> list_all (field_passes obj1 obj2) desired, concat (map (field_report obj1 obj2) desired))"
proof (induction desired arbitrary: ok)
  case Nil
  then show ?case by simp
next
  case (Cons d desired)
  obtain key exp where d: "d = (key, exp)" by (cases d)
  show ?case
  proof (cases "obj1 key = Some exp \<or> obj2 key = Some exp")
    case True
    then show ?thesis
      by (cases "obj1 key = obj2 key")
         (simp_all add: d Cons.IH field_passes_def field_report_def)
  next
    case False
    then show ?thesis
      by (simp add: d Cons.IH field_passes_def field_report_def)
  qed
qed

lemma sample_decode:
  "decode_physical_constraints
     (replicate 22 0 @ [0x02, 100, 0, 0, 0] @ replicate 2818 0 @ [0x02, 200, 0, 0, 0] @ replicate 2850 0) =
   Inr ([''acceleration_scaler'' \<mapsto> 100], [''acceleration_scaler'' \<mapsto> 200])"
  unfolding decode_physical_constraints_def physical_constraints_offsets_def
  by (simp add: ignored_keys_def grab_def int_size_def slice_def nth_append ASCII_OK_def
      find_indicator.simps)

lemma field_report_FAIL:
  "FAIL key v1 v2 exp \<in> set (field_report obj1 obj2 (k, e)) \<longleftrightarrow>
     k = key \<and> e = exp \<and> v1 = obj1 key \<and> v2 = obj2 key \<and>
     obj1 key \<noteq> Some exp \<and> obj2 key \<noteq> Some exp"
proof (cases "obj1 k = Some e \<or> obj2 k = Some e")
  case True
  then have "field_report obj1 obj2 (k, e) = [] \<or>
      field_report obj1 obj2 (k, e) = [WARN k (obj1 k) (obj2 k) e]"
    by (simp add: field_report_def)
  then show ?thesis using True by fastforce
next
  case False
  then have "field_report obj1 obj2 (k, e) = [FAIL k (obj1 k) (obj2 k) e]"
    by (simp add: field_report_def)
  then show ?thesis using False by fastforce
qed

lemma field_report_WARN:
  "WARN key v1 v2 exp \<in> set (field_report obj1 obj2 (k, e)) \<longleftrightarrow>
     k = key \<and> e = exp \<and> v1 = obj1 key \<and> v2 = obj2 key \<and>
     (obj1 key = Some exp \<or> obj2 key = Some exp) \<and> obj1 key \<noteq> obj2 key"
proof (cases "obj1 k = Some e \<or> obj2 k = Some e")
  case True
  note t = this
  show ?thesis
  proof (cases "obj1 k = obj2 k")
    case True
    then have "field_report obj1 obj2 (k, e) = []" using t by (simp add: field_report_def)
    then show ?thesis using True by fastforce
  next
    case False
    then have "field_report obj1 obj2 (k, e) = [WARN k (obj1 k) (obj2 k) e]"
      using t by (simp add: field_report_def)
    then show ?thesis using False t by fastforce
  qed
next
  case False
  then have "field_report obj1 obj2 (k, e) = [FAIL k (obj1 k) (obj2 k) e]"
    by (simp add: field_report_def)
  then show ?thesis using False by fastforce
qed

lemma field_report_summary:
  "VerificationSucceeded \<notin> set (field_report obj1 obj2 d)"
  "VerificationFailed \<notin> set (field_report obj1 obj2 d)"
  by (simp_all add: field_report_def split: prod.splits)

text \<open>
  C5: when the two copies decode (to \<open>obj1\<close>, \<open>obj2\<close>), the check of a dictionary of
  desired values returns \<open>True\<close> exactly when every field has at least one copy equal to
  its expected value; a FAIL line is printed exactly for the fields where neither copy
  matches, a WARN line exactly for the fields where one copy matches and the copies
  differ, and the summary line says success exactly when the result is \<open>True\<close>.
\<close>

theorem verify_passes_iff_a_copy_matches:
  assumes "decode_physical_constraints jsb = Inr (obj1, obj2)"
  shows "\<exists>ok out. verify_physical_constraints jsb (Some desired) = Inr (ok, out) \<and>
     (ok \<longleftrightarrow> (\<forall>(key, exp)\<in>set desired. obj1 key = Some exp \<or> obj2 key = Some exp)) \<and>
     (\<forall>key v1 v2 exp. FAIL key v1 v2 exp \<in> set out \<longleftrightarrow>
         (key, exp) \<in> set desired \<and> v1 = obj1 key \<and> v2 = obj2 key \<and>
         obj1 key \<noteq> Some exp \<and> obj2 key \<noteq> Some exp) \<and>
     (\<forall>key v1 v2 exp. WARN key v1 v2 exp \<in> set out \<longleftrightarrow>
         (key, exp) \<in> set desired \<and> v1 = obj1 key \<and> v2 = obj2 key \<and>
         (obj1 key = Some exp \<or> obj2 key = Some exp) \<and> obj1 key \<noteq> obj2 key) \<and>
     (VerificationSucceeded \<in> set out \<longleftrightarrow> ok) \<and>
     (VerificationFailed \<in> set out \<longleftrightarrow> \<not> ok)"
proof -
  let ?ok = "list_all (field_passes obj1 obj2) desired"
  let ?body = "concat (map (field_report obj1 obj2) desired)"
  let ?out = "?body @ [if ?ok then VerificationSucceeded else VerificationFailed]"
  have res: "verify_physical_constraints jsb (Some desired) = Inr (?ok, ?out)"
    using assms by (simp add: verify_physical_constraints_def verify_items_eq)
  have ok: "?ok \<longleftrightarrow> (\<forall>(key, exp)\<in>set desired. obj1 key = Some exp \<or> obj2 key = Some exp)"
    by (auto simp: list_all_iff field_passes_def)
  have fail: "FAIL key v1 v2 exp \<in> set ?out \<longleftrightarrow>
         (key, exp) \<in> set desired \<and> v1 = obj1 key \<and> v2 = obj2 key \<and>
         obj1 key \<noteq> Some exp \<and> obj2 key \<noteq> Some exp" for key v1 v2 exp
  proof -
    have "FAIL key v1 v2 exp \<in> set ?out \<longleftrightarrow>
        (\<exists>k e. (k, e) \<in> set desired \<and> FAIL key v1 v2 exp \<in> set (field_report obj1 obj2 (k, e)))"
      by auto
    then show ?thesis unfolding field_report_FAIL by blast
  qed
  have warn: "WARN key v1 v2 exp \<in> set ?out \<longleftrightarrow>
         (key, exp) \<in> set desired \<and> v1 = obj1 key \<and> v2 = obj2 key \<and>
         (obj1 key = Some exp \<or> obj2 key = Some exp) \<and> obj1 key \<noteq> obj2 key" for key v1 v2 exp
  proof -
    have "WARN key v1 v2 exp \<in> set ?out \<longleftrightarrow>
        (\<exists>k e. (k, e) \<in> set desired \<and> WARN key v1 v2 exp \<in> set (field_report obj1 obj2 (k, e)))"
      by auto
    then show ?thesis unfolding field_report_WARN by blast
  qed
  have s: "VerificationSucceeded \<in> set ?out \<longleftrightarrow> ?ok"
    by (simp add: field_report_summary)
  have f: "VerificationFailed \<in> set ?out \<longleftrightarrow> \<not> ?ok"
    by (simp add: field_report_summary)
  show ?thesis
    apply (rule exI [of _ ?ok], rule exI [of _ ?out])
    using res ok fail warn s f by blast
qed

theorem verify_passes_iff_a_copy_matches_witness:
  "decode_physical_constraints
     (replicate 22 0 @ [0x02, 100, 0, 0, 0] @ replicate 2818 0 @ [0x02, 200, 0, 0, 0] @ replicate 2850 0) =
   Inr ([''acceleration_scaler'' \<mapsto> 100], [''acceleration_scaler'' \<mapsto> 200]) \<and>
   verify_physical_constraints
     (replicate 22 0 @ [0x02, 100, 0, 0, 0] @ replicate 2818 0 @ [0x02, 200, 0, 0, 0] @ replicate 2850 0)
     (Some [(''acceleration_scaler'', 100)]) =
   Inr (True, [WARN ''acceleration_scaler'' (Some 100) (Some 200) 100, VerificationSucceeded]) \<and>
   verify_physical_constraints
     (replicate 22 0 @ [0x02, 100, 0, 0, 0] @ replicate 2818 0 @ [0x02, 200, 0, 0, 0] @ replicate 2850 0)
     (Some [(''acceleration_scaler'', 300)]) =
   Inr (False, [FAIL ''acceleration_scaler'' (Some 100) (Some 200) 300, VerificationFailed])"
  using verify_passes_iff_a_copy_matches [OF sample_decode, of "[(''acceleration_scaler'', 100)]"]
    sample_decode
  by (simp add: verify_physical_constraints_def)

section \<open>Claims about the token stream reader\<close>

text \<open>
  C6, as stated, fails for the prefix encoding: after a prefix byte whose length byte is
  200 the cursor moves two bytes, not one. The two cursors give different streams: on the
  second buffer the reader, having skipped two bytes, yields the token \<open>a = 1\<close>, while
  a scan resumed one byte after the malformed header raises IndexError.
\<close>

theorem malformed_prefixed_header_skips_two:
  "tok_step [0x6A, 0xC8, 0x00, 0x00] 0 = Skip 2 \<and>
   tok_next [0x6A, 0x6A, 0x2A, 0x01, 0x61, 0x02, 1, 0, 0, 0, 0, 0] 12 0 =
     Inr (Some ([97], I32, IntV 1, 10)) \<and>
   tok_next [0x6A, 0x6A, 0x2A, 0x01, 0x61, 0x02, 1, 0, 0, 0, 0, 0] 12 1 = Inl IndexError"
  by (simp add: tok_next.simps tok_step_def tok_value_def slice_def i32_def unpack_signed_def
      unpack_unsigned_def)

text \<open>
  C6 (amended). At a malformed key header the reader raises nothing and retries: with the
  inline encoding (a byte that is 0 or above 96 and is not a prefix) it resumes exactly one
  byte further; with the prefix encoding (a prefix byte followed by a length byte that is
  0 or above 96) it resumes exactly two bytes further, after the prefix and the length
  byte.
\<close>

theorem malformed_key_header_skipped:
  "(i < length buf \<longrightarrow> buf ! i \<notin> {0x2A, 0x4A, 0x5A, 0x6A} \<longrightarrow>
      \<not> (0 < buf ! i \<and> buf ! i \<le> 96) \<longrightarrow>
        tok_step buf i = Skip (i + 1) \<and>
        (i + 2 < n \<longrightarrow> tok_next buf n i = tok_next buf n (i + 1))) \<and>
   (i + 1 < length buf \<longrightarrow> buf ! i \<in> {0x2A, 0x4A, 0x5A, 0x6A} \<longrightarrow>
      \<not> (0 < buf ! (i + 1) \<and> buf ! (i + 1) \<le> 96) \<longrightarrow>
        tok_step buf i = Skip (i + 2) \<and>
        (i + 2 < n \<longrightarrow> tok_next buf n i = tok_next buf n (i + 2)))"
proof (intro conjI impI)
  assume a: "i < length buf" "buf ! i \<notin> {0x2A, 0x4A, 0x5A, 0x6A}" "\<not> (0 < buf ! i \<and> buf ! i \<le> 96)"
  then show s: "tok_step buf i = Skip (i + 1)"
    by (auto simp: tok_step_def Let_def)
  assume "i + 2 < n"
  then show "tok_next buf n i = tok_next buf n (i + 1)"
    using s by (subst tok_next.simps) simp
next
  assume a: "i + 1 < length buf" "buf ! i \<in> {0x2A, 0x4A, 0x5A, 0x6A}"
    "\<not> (0 < buf ! (i + 1) \<and> buf ! (i + 1) \<le> 96)"
  then show s: "tok_step buf i = Skip (i + 2)"
    by (auto simp: tok_step_def Let_def)
  assume "i + 2 < n"
  then show "tok_next buf n i = tok_next buf n (i + 2)"
    using s by (subst tok_next.simps) simp
qed

theorem malformed_key_header_skipped_witness:
  "tok_step [0xC8, 0x01, 0x61, 0x02, 1, 0, 0, 0] 0 = Skip 1 \<and>
   tok_next [0xC8, 0x01, 0x61, 0x02, 1, 0, 0, 0] 8 0 = Inr (Some ([97], I32, IntV 1, 8)) \<and>
   tok_step [0x5A, 0x00, 0x01, 0x61, 0x02, 1, 0, 0, 0] 0 = Skip 2 \<and>
   tok_next [0x5A, 0x00, 0x01, 0x61, 0x02, 1, 0, 0, 0] 9 0 = Inr (Some ([97], I32, IntV 1, 9))"
proof -
  have n1: "tok_next [0xC8, 0x01, 0x61, 0x02, 1, 0, 0, 0] 8 (0 + 1) = Inr (Some ([97], I32, IntV 1, 8))"
    by (simp add: tok_next.simps tok_step_def tok_value_def slice_def i32_def unpack_signed_def
      unpack_unsigned_def)
  have n2: "tok_next [0x5A, 0x00, 0x01, 0x61, 0x02, 1, 0, 0, 0] 9 (0 + 2) = Inr (Some ([97], I32, IntV 1, 9))"
    by (simp add: tok_next.simps tok_step_def tok_value_def slice_def i32_def unpack_signed_def
      unpack_unsigned_def)
  show ?thesis
    using malformed_key_header_skipped [of 0 "[0xC8, 0x01, 0x61, 0x02, 1, 0, 0, 0]" 8]
      malformed_key_header_skipped [of 0 "[0x5A, 0x00, 0x01, 0x61, 0x02, 1, 0, 0, 0]" 9] n1 n2
    by simp
qed

section \<open>Claims about the decoding of the int32 marker\<close>

text \<open>
  The four bytes after a marker at \<open>p - 1\<close>, read little-endian: unsigned, and as a
  two's-complement 32-bit value.
\<close>

definition u32_at :: "byte list \<Rightarrow> nat \<Rightarrow> int" where
  "u32_at buf p = uint (buf ! p) + 256 * uint (buf ! (p + 1)) + 65536 * uint (buf ! (p + 2)) +
                  16777216 * uint (buf ! (p + 3))"

definition i32_at :: "byte list \<Rightarrow> nat \<Rightarrow> int" where
  "i32_at buf p = (if u32_at buf p < 2 ^ 31 then u32_at buf p else u32_at buf p - 2 ^ 32)"

lemma take4_drop:
  assumes "p + 4 \<le> length buf"
  shows "take 4 (drop p buf) = [buf ! p, buf ! (p + 1), buf ! (p + 2), buf ! (p + 3)]"
proof (rule nth_equalityI)
  show "length (take 4 (drop p buf)) = length [buf ! p, buf ! (p + 1), buf ! (p + 2), buf ! (p + 3)]"
    using assms by simp
next
  fix i assume "i < length (take 4 (drop p buf))"
  then have i: "i < 4" by simp
  then have "i = 0 \<or> i = 1 \<or> i = 2 \<or> i = 3" by arith
  then show "take 4 (drop p buf) ! i = [buf ! p, buf ! (p + 1), buf ! (p + 2), buf ! (p + 3)] ! i"
    using assms by (auto simp: add.commute)
qed

lemma from_bytes_little_4:
  "p + 4 \<le> length buf \<Longrightarrow> from_bytes_little (take 4 (drop p buf)) = u32_at buf p"
  by (simp add: take4_drop u32_at_def)

lemma unpack_unsigned_4:
  "p + 4 \<le> length buf \<Longrightarrow> unpack_unsigned 4 buf p = Some (u32_at buf p)"
  by (simp add: unpack_unsigned_def from_bytes_little_4)

lemma unpack_signed_4:
  "p + 4 \<le> length buf \<Longrightarrow> unpack_signed 4 buf p = Some (i32_at buf p)"
  by (simp add: unpack_signed_def unpack_unsigned_4 i32_at_def)

lemma uint_byte_bounds: "0 \<le> uint (b :: byte) \<and> uint b < 256"
  using uint_bounded [of b] by simp

lemma u32_at_bounds: "0 \<le> u32_at buf p \<and> u32_at buf p < 2 ^ 32"
  using uint_byte_bounds [of "buf ! p"] uint_byte_bounds [of "buf ! (p + 1)"]
    uint_byte_bounds [of "buf ! (p + 2)"] uint_byte_bounds [of "buf ! (p + 3)"]
  by (simp add: u32_at_def)

lemma top_byte_decides:
  fixes a b c d :: int
  assumes "0 \<le> a" "a < 256" "0 \<le> b" "b < 256" "0 \<le> c" "c < 256" "0 \<le> d" "d < 256"
  shows "(a + 256 * b + 65536 * c + 16777216 * d < 2147483648) = (d < 128)"
  using assms by arith

lemma i32_at_negative: "i32_at buf p < 0 \<longleftrightarrow> 0x80 \<le> buf ! (p + 3)"
proof -
  have top: "0x80 \<le> buf ! (p + 3) \<longleftrightarrow> 128 \<le> uint (buf ! (p + 3))"
    by (simp add: word_le_def)
  have "u32_at buf p < 2 ^ 31 \<longleftrightarrow> uint (buf ! (p + 3)) < 128"
    unfolding u32_at_def
    using top_byte_decides [of "uint (buf ! p)" "uint (buf ! (p + 1))" "uint (buf ! (p + 2))"
        "uint (buf ! (p + 3))"]
      uint_byte_bounds [of "buf ! p"] uint_byte_bounds [of "buf ! (p + 1)"]
      uint_byte_bounds [of "buf ! (p + 2)"] uint_byte_bounds [of "buf ! (p + 3)"]
    by simp
  then show ?thesis using u32_at_bounds [of buf p] top by (auto simp: i32_at_def)
qed

text \<open>
  C7, as stated, fails for the physical-constraints decoder: \<open>int.from_bytes(blob,
  "little")\<close> is unsigned, so with the top bit of the fourth byte set the value is
  2147483648, not negative.
\<close>

theorem physics_int32_unsigned:
  "grab [0x6B, 0x02, 0x00, 0x00, 0x00, 0x80] ''k'' (Some 0) = Inr (Some 2147483648)"
  by (simp add: grab_def find_indicator.simps ASCII_OK_def int_size_def slice_def)

text \<open>
  C7 (amended). A value introduced by the marker 0x02 with its four bytes inside the buffer
  is decoded as a 4-byte little-endian signed integer, negative exactly when the top bit
  of the fourth byte is set, by every decoder of the system but one: the token stream
  reader, the role\_data parser, the role\_lookup parser, \<open>parse_start_value\<close>, the
  integer decoder of \<open>parse_version\<close> and the weights decoder. The exception is the
  physical-constraints decoder, which decodes the same four bytes as an unsigned integer,
  never negative.
\<close>

theorem int32_marker_decoding:
  assumes "p + 4 < length buf" and "buf ! p = 0x02"
  shows "(i0 + klen = p \<longrightarrow>
            tok_value buf i0 klen =
              Yield (utf8_replace (slice buf i0 (i0 + klen)), I32, IntV (i32_at buf (p + 1)), p + 5)) \<and>
         role_value buf p = Inr (i32_at buf (p + 1), p + 5) \<and>
         read_int buf p = Inr (i32_at buf (p + 1), p + 5) \<and>
         (anchor + 11 = p \<longrightarrow> slice buf anchor (anchor + 11) = bytes_of ''start_value'' \<longrightarrow>
            parse_start_value buf anchor = Inr (i32_at buf (p + 1))) \<and>
         decode_int buf p = Inr (i32_at buf (p + 1), p + 5) \<and>
         le_i32 (slice buf (p + 1) (p + 5)) = Some (i32_at buf (p + 1)) \<and>
         (i32_at buf (p + 1) < 0 \<longleftrightarrow> 0x80 \<le> buf ! (p + 4)) \<and>
         (find_indicator buf loc = p \<longrightarrow>
            grab buf key (Some loc) = Inr (Some (u32_at buf (p + 1))) \<and> 0 \<le> u32_at buf (p + 1))"
proof (intro conjI impI)
  have len: "p + 1 + 4 \<le> length buf" using assms(1) by simp
  have fb: "from_bytes_little (take 4 (drop (Suc p) buf)) = u32_at buf (Suc p)"
    using from_bytes_little_4 [of "Suc p" buf] assms(1) by simp
  have sl: "slice buf (Suc p) (5 + p) = take 4 (drop (Suc p) buf)"
    by (simp add: slice_def)
  have sl_len: "length (take 4 (drop (Suc p) buf)) = 4" using assms(1) by simp
  have i32: "i32 (slice buf (p + 1) (p + 1 + 4)) = Some (i32_at buf (p + 1))"
    using sl_len fb by (simp add: i32_def sl unpack_signed_def unpack_unsigned_def i32_at_def)
  show "tok_value buf i0 klen =
      Yield (utf8_replace (slice buf i0 (i0 + klen)), I32, IntV (i32_at buf (p + 1)), p + 5)"
    if "i0 + klen = p"
    using that assms i32 by (simp add: tok_value_def Let_def)
  show "role_value buf p = Inr (i32_at buf (p + 1), p + 5)"
    using assms unpack_signed_4 [OF len] by (simp add: role_value_def Let_def)
  show "read_int buf p = Inr (i32_at buf (p + 1), p + 5)"
    using assms unpack_signed_4 [OF len] by (simp add: read_int_def Let_def)
  show "parse_start_value buf anchor = Inr (i32_at buf (p + 1))"
    if "anchor + 11 = p" "slice buf anchor (anchor + 11) = bytes_of ''start_value''"
  proof -
    have klen: "length (bytes_of ''start_value'') = 11" by (simp add: bytes_of_def)
    show ?thesis
      unfolding parse_start_value_def Let_def klen
      using that assms unpack_signed_4 [OF len] by simp
  qed
  show "decode_int buf p = Inr (i32_at buf (p + 1), p + 5)"
    using assms unpack_signed_4 [OF len] by (simp add: decode_int_def Let_def)
  have sl2: "slice buf (Suc p) (p + 5) = take 4 (drop (Suc p) buf)"
    by (simp add: slice_def)
  show "le_i32 (slice buf (p + 1) (p + 5)) = Some (i32_at buf (p + 1))"
    using sl_len fb by (simp add: le_i32_def sl2 unpack_signed_def unpack_unsigned_def i32_at_def)
  show "(i32_at buf (p + 1) < 0) = (0x80 \<le> buf ! (p + 4))"
    using i32_at_negative [of buf "p + 1"] by (simp add: add.commute)
  show "grab buf key (Some loc) = Inr (Some (u32_at buf (p + 1)))" if "find_indicator buf loc = p"
    using that assms sl sl_len fb
    by (simp add: grab_def Let_def int_size_def)
  show "0 \<le> u32_at buf (p + 1)" using u32_at_bounds by simp
qed

theorem int32_marker_decoding_witness:
  "tok_value [0x6B, 0x02, 0x00, 0x00, 0x00, 0x80] 0 1 = Yield ([107], I32, IntV (- 2147483648), 6) \<and>
   role_value [0x6B, 0x02, 0x00, 0x00, 0x00, 0x80] 1 = Inr (- 2147483648, 6) \<and>
   read_int [0x6B, 0x02, 0x00, 0x00, 0x00, 0x80] 1 = Inr (- 2147483648, 6) \<and>
   decode_int [0x6B, 0x02, 0x00, 0x00, 0x00, 0x80] 1 = Inr (- 2147483648, 6) \<and>
   le_i32 [0x00, 0x00, 0x00, 0x80] = Some (- 2147483648) \<and>
   parse_start_value (bytes_of ''start_value'' @ [0x02, 0x00, 0x00, 0x00, 0x80]) 0 =
     Inr (- 2147483648) \<and>
   grab [0x6B, 0x02, 0x00, 0x00, 0x00, 0x80] ''k'' (Some 0) = Inr (Some 2147483648)"
proof -
  let ?buf = "[0x6B, 0x02, 0x00, 0x00, 0x00, 0x80] :: byte list"
  let ?sv = "bytes_of ''start_value'' @ [0x02, 0x00, 0x00, 0x00, 0x80]"
  have a: "1 + 4 < length ?buf" "?buf ! 1 = 0x02" by simp_all
  have fi: "find_indicator ?buf 0 = 1" by (simp add: find_indicator.simps ASCII_OK_def)
  have v: "i32_at ?buf (1 + 1) = - 2147483648" "u32_at ?buf (1 + 1) = 2147483648"
    by (simp_all add: i32_at_def u32_at_def)
  have k: "utf8_replace (slice ?buf 0 (0 + 1)) = [107]" by (simp add: slice_def)
  have sl: "slice ?buf (1 + 1) (1 + 5) = [0x00, 0x00, 0x00, 0x80]" by (simp add: slice_def)
  have b: "11 + 4 < length ?sv" "?sv ! 11 = 0x02" by (simp_all add: bytes_of_def)
  have key: "(0 :: nat) + 11 = 11" "slice ?sv 0 (0 + 11) = bytes_of ''start_value''"
    by (simp_all add: slice_def bytes_of_def)
  have vs: "i32_at ?sv (11 + 1) = - 2147483648"
    by (simp add: i32_at_def u32_at_def bytes_of_def)
  have sv: "parse_start_value ?sv 0 = Inr (- 2147483648)"
    using int32_marker_decoding [OF b, of 0 0 0 0 "''k''"] key vs by simp
  show ?thesis
    using int32_marker_decoding [OF a, of 0 1 0 0 "''k''"] fi v k sl sv by simp
qed

section \<open>Claims about parse\_expected\_score\<close>

text \<open>
  A well-formed table of eleven rows. In each row the short-string marker 0x82 of the name
  counts two bytes, the letter A and the byte 0x13 that is the length byte of the next
  key; the multipliers are 1000 and 1200.
\<close>

definition example_row :: "byte list" where
  "example_row =
     [0x04] @ bytes_of ''name'' @ [0x82, 0x41] @
     [0x13] @ bytes_of ''negative_multiplier'' @ [0x02, 0xE8, 0x03, 0x00, 0x00] @
     [0x13] @ bytes_of ''positive_multiplier'' @ [0x02, 0xB0, 0x04, 0x00, 0x00]"

definition example_buf :: "byte list" where
  "example_buf = bytes_of ''expected_score_data'' @ [0xC9] @ concat (replicate 11 example_row)"

lemma example_buf_bytes:
  "example_buf =
     [0x65, 0x78, 0x70, 0x65, 0x63, 0x74, 0x65, 0x64, 0x5F, 0x73, 0x63, 0x6F, 0x72, 0x65, 0x5F,
     0x64, 0x61, 0x74, 0x61, 0xC9, 0x04, 0x6E, 0x61, 0x6D, 0x65, 0x82, 0x41, 0x13, 0x6E, 0x65,
     0x67, 0x61, 0x74, 0x69, 0x76, 0x65, 0x5F, 0x6D, 0x75, 0x6C, 0x74, 0x69, 0x70, 0x6C, 0x69,
     0x65, 0x72, 0x02, 0xE8, 0x03, 0x00, 0x00, 0x13, 0x70, 0x6F, 0x73, 0x69, 0x74, 0x69, 0x76,
     0x65, 0x5F, 0x6D, 0x75, 0x6C, 0x74, 0x69, 0x70, 0x6C, 0x69, 0x65, 0x72, 0x02, 0xB0, 0x04,
     0x00, 0x00, 0x04, 0x6E, 0x61, 0x6D, 0x65, 0x82, 0x41, 0x13, 0x6E, 0x65, 0x67, 0x61, 0x74,
     0x69, 0x76, 0x65, 0x5F, 0x6D, 0x75, 0x6C, 0x74, 0x69, 0x70, 0x6C, 0x69, 0x65, 0x72, 0x02,
     0xE8, 0x03, 0x00, 0x00, 0x13, 0x70, 0x6F, 0x73, 0x69, 0x74, 0x69, 0x76, 0x65, 0x5F, 0x6D,
     0x75, 0x6C, 0x74, 0x69, 0x70, 0x6C, 0x69, 0x65, 0x72, 0x02, 0xB0, 0x04, 0x00, 0x00, 0x04,
     0x6E, 0x61, 0x6D, 0x65, 0x82, 0x41, 0x13, 0x6E, 0x65, 0x67, 0x61, 0x74, 0x69, 0x76, 0x65,
     0x5F, 0x6D, 0x75, 0x6C, 0x74, 0x69, 0x70, 0x6C, 0x69, 0x65, 0x72, 0x02, 0xE8, 0x03, 0x00,
     0x00, 0x13, 0x70, 0x6F, 0x73, 0x69, 0x74, 0x69, 0x76, 0x65, 0x5F, 0x6D, 0x75, 0x6C, 0x74,
     0x69, 0x70, 0x6C, 0x69, 0x65, 0x72, 0x02, 0xB0, 0x04, 0x00, 0x00, 0x04, 0x6E, 0x61, 0x6D,
     0x65, 0x82, 0x41, 0x13, 0x6E, 0x65, 0x67, 0x61, 0x74, 0x69, 0x76, 0x65, 0x5F, 0x6D, 0x75,
     0x6C, 0x74, 0x69, 0x70, 0x6C, 0x69, 0x65, 0x72, 0x02, 0xE8, 0x03, 0x00, 0x00, 0x13, 0x70,
     0x6F, 0x73, 0x69, 0x74, 0x69, 0x76, 0x65, 0x5F, 0x6D, 0x75, 0x6C, 0x74, 0x69, 0x70, 0x6C,
     0x69, 0x65, 0x72, 0x02, 0xB0, 0x04, 0x00, 0x00, 0x04, 0x6E, 0x61, 0x6D, 0x65, 0x82, 0x41,
     0x13, 0x6E, 0x65, 0x67, 0x61, 0x74, 0x69, 0x76, 0x65, 0x5F, 0x6D, 0x75, 0x6C, 0x74, 0x69,
     0x70, 0x6C, 0x69, 0x65, 0x72, 0x02, 0xE8, 0x03, 0x00, 0x00, 0x13, 0x70, 0x6F, 0x73, 0x69,
     0x74, 0x69, 0x76, 0x65, 0x5F, 0x6D, 0x75, 0x6C, 0x74, 0x69, 0x70, 0x6C, 0x69, 0x65, 0x72,
     0x02, 0xB0, 0x04, 0x00, 0x00, 0x04, 0x6E, 0x61, 0x6D, 0x65, 0x82, 0x41, 0x13, 0x6E, 0x65,
     0x67, 0x61, 0x74, 0x69, 0x76, 0x65, 0x5F, 0x6D, 0x75, 0x6C, 0x74, 0x69, 0x70, 0x6C, 0x69,
     0x65, 0x72, 0x02, 0xE8, 0x03, 0x00, 0x00, 0x13, 0x70, 0x6F, 0x73, 0x69, 0x74, 0x69, 0x76,
     0x65, 0x5F, 0x6D, 0x75, 0x6C, 0x74, 0x69, 0x70, 0x6C, 0x69, 0x65, 0x72, 0x02, 0xB0, 0x04,
     0x00, 0x00, 0x04, 0x6E, 0x61, 0x6D, 0x65, 0x82, 0x41, 0x13, 0x6E, 0x65, 0x67, 0x61, 0x74,
     0x69, 0x76, 0x65, 0x5F, 0x6D, 0x75, 0x6C, 0x74, 0x69, 0x70, 0x6C, 0x69, 0x65, 0x72, 0x02,
     0xE8, 0x03, 0x00, 0x00, 0x13, 0x70, 0x6F, 0x73, 0x69, 0x74, 0x69, 0x76, 0x65, 0x5F, 0x6D,
     0x75, 0x6C, 0x74, 0x69, 0x70, 0x6C, 0x69, 0x65, 0x72, 0x02, 0xB0, 0x04, 0x00, 0x00, 0x04,
     0x6E, 0x61, 0x6D, 0x65, 0x82, 0x41, 0x13, 0x6E, 0x65, 0x67, 0x61, 0x74, 0x69, 0x76, 0x65,
     0x5F, 0x6D, 0x75, 0x6C, 0x74, 0x69, 0x70, 0x6C, 0x69, 0x65, 0x72, 0x02, 0xE8, 0x03, 0x00,
     0x00, 0x13, 0x70, 0x6F, 0x73, 0x69, 0x74, 0x69, 0x76, 0x65, 0x5F, 0x6D, 0x75, 0x6C, 0x74,
     0x69, 0x70, 0x6C, 0x69, 0x65, 0x72, 0x02, 0xB0, 0x04, 0x00, 0x00, 0x04, 0x6E, 0x61, 0x6D,
     0x65, 0x82, 0x41, 0x13, 0x6E, 0x65, 0x67, 0x61, 0x74, 0x69, 0x76, 0x65, 0x5F, 0x6D, 0x75,
     0x6C, 0x74, 0x69, 0x70, 0x6C, 0x69, 0x65, 0x72, 0x02, 0xE8, 0x03, 0x00, 0x00, 0x13, 0x70,
     0x6F, 0x73, 0x69, 0x74, 0x69, 0x76, 0x65, 0x5F, 0x6D, 0x75, 0x6C, 0x74, 0x69, 0x70, 0x6C,
     0x69, 0x65, 0x72, 0x02, 0xB0, 0x04, 0x00, 0x00, 0x04, 0x6E, 0x61, 0x6D, 0x65, 0x82, 0x41,
     0x13, 0x6E, 0x65, 0x67, 0x61, 0x74, 0x69, 0x76, 0x65, 0x5F, 0x6D, 0x75, 0x6C, 0x74, 0x69,
     0x70, 0x6C, 0x69, 0x65, 0x72, 0x02, 0xE8, 0x03, 0x00, 0x00, 0x13, 0x70, 0x6F, 0x73, 0x69,
     0x74, 0x69, 0x76, 0x65, 0x5F, 0x6D, 0x75, 0x6C, 0x74, 0x69, 0x70, 0x6C, 0x69, 0x65, 0x72,
     0x02, 0xB0, 0x04, 0x00, 0x00, 0x04, 0x6E, 0x61, 0x6D, 0x65, 0x82, 0x41, 0x13, 0x6E, 0x65,
     0x67, 0x61, 0x74, 0x69, 0x76, 0x65, 0x5F, 0x6D, 0x75, 0x6C, 0x74, 0x69, 0x70, 0x6C, 0x69,
     0x65, 0x72, 0x02, 0xE8, 0x03, 0x00, 0x00, 0x13, 0x70, 0x6F, 0x73, 0x69, 0x74, 0x69, 0x76,
     0x65, 0x5F, 0x6D, 0x75, 0x6C, 0x74, 0x69, 0x70, 0x6C, 0x69, 0x65, 0x72, 0x02, 0xB0, 0x04,
     0x00, 0x00]"
  by (simp add: example_buf_def example_row_def bytes_of_def numeral_eq_Suc)

lemmas expected_score_eval = example_buf_bytes parse_expected_score_def body_start_def bytes_of_def
  expect_def tok_stream_def tok_next.simps tok_step_def tok_value_def slice_def i32_def i64_def
  u32_def unpack_signed_def unpack_unsigned_def str_of_def

text \<open>One pass of the row loop at each of the eleven row offsets.\<close>

lemma example_rows_step:
  "expected_score_rows example_buf 647 verbose (Suc k) (20, 647) tr =
     expected_score_rows example_buf 647 verbose k (77, 647)
       (tr @ [Expected_score_object (if verbose then [65] else [65, 19]) (IntV 1000) (IntV 1200)])"
  "expected_score_rows example_buf 647 verbose (Suc k) (77, 647) tr =
     expected_score_rows example_buf 647 verbose k (134, 647)
       (tr @ [Expected_score_object (if verbose then [65] else [65, 19]) (IntV 1000) (IntV 1200)])"
  "expected_score_rows example_buf 647 verbose (Suc k) (134, 647) tr =
     expected_score_rows example_buf 647 verbose k (191, 647)
       (tr @ [Expected_score_object (if verbose then [65] else [65, 19]) (IntV 1000) (IntV 1200)])"
  "expected_score_rows example_buf 647 verbose (Suc k) (191, 647) tr =
     expected_score_rows example_buf 647 verbose k (248, 647)
       (tr @ [Expected_score_object (if verbose then [65] else [65, 19]) (IntV 1000) (IntV 1200)])"
  "expected_score_rows example_buf 647 verbose (Suc k) (248, 647) tr =
     expected_score_rows example_buf 647 verbose k (305, 647)
       (tr @ [Expected_score_object (if verbose then [65] else [65, 19]) (IntV 1000) (IntV 1200)])"
  "expected_score_rows example_buf 647 verbose (Suc k) (305, 647) tr =
     expected_score_rows example_buf 647 verbose k (362, 647)
       (tr @ [Expected_score_object (if verbose then [65] else [65, 19]) (IntV 1000) (IntV 1200)])"
  "expected_score_rows example_buf 647 verbose (Suc k) (362, 647) tr =
     expected_score_rows example_buf 647 verbose k (419, 647)
       (tr @ [Expected_score_object (if verbose then [65] else [65, 19]) (IntV 1000) (IntV 1200)])"
  "expected_score_rows example_buf 647 verbose (Suc k) (419, 647) tr =
     expected_score_rows example_buf 647 verbose k (476, 647)
       (tr @ [Expected_score_object (if verbose then [65] else [65, 19]) (IntV 1000) (IntV 1200)])"
  "expected_score_rows example_buf 647 verbose (Suc k) (476, 647) tr =
     expected_score_rows example_buf 647 verbose k (533, 647)
       (tr @ [Expected_score_object (if verbose then [65] else [65, 19]) (IntV 1000) (IntV 1200)])"
  "expected_score_rows example_buf 647 verbose (Suc k) (533, 647) tr =
     expected_score_rows example_buf 647 verbose k (590, 647)
       (tr @ [Expected_score_object (if verbose then [65] else [65, 19]) (IntV 1000) (IntV 1200)])"
  "expected_score_rows example_buf 647 verbose (Suc k) (590, 647) tr =
     expected_score_rows example_buf 647 verbose k (647, 647)
       (tr @ [Expected_score_object (if verbose then [65] else [65, 19]) (IntV 1000) (IntV 1200)])"
  by (simp_all add: expected_score_eval cong: prod.case_cong_weak)

lemma eleven: "(11 :: nat) = Suc (Suc (Suc (Suc (Suc (Suc (Suc (Suc (Suc (Suc (Suc 0))))))))))"
  by simp

lemma example_body_start: "body_start example_buf 0 (bytes_of ''expected_score_data'') = Inr 20"
  by (simp add: expected_score_eval)

lemma example_parse:
  "parse_expected_score example_buf 0 647 verbose =
     Inr (replicate 11
       (Expected_score_object (if verbose then [65] else [65, 19]) (IntV 1000) (IntV 1200)))"
  unfolding parse_expected_score_def example_body_start eleven
  by (simp add: tok_stream_def example_rows_step del: expected_score_rows.simps(2))

text \<open>
  C2: the evaluation of \<open>parse_expected_score\<close> on the example table. Every name token
  ends in the control byte 0x13, so the stream is restarted one byte earlier in both runs;
  the stored name keeps the byte 0x13 when \<open>verbose\<close> is False and is trimmed to
  \<open>A\<close> only when \<open>verbose\<close> is True, because the assignment \<open>name = name[:-1]\<close> sits
  inside \<open>if verbose:\<close>.
\<close>

theorem name_trimmed_only_when_verbose:
  "parse_expected_score example_buf 0 647 False =
     Inr (replicate 11 (Expected_score_object [65, 19] (IntV 1000) (IntV 1200))) \<and>
   parse_expected_score example_buf 0 647 True =
     Inr (replicate 11 (Expected_score_object [65] (IntV 1000) (IntV 1200)))"
  using example_parse [of False] example_parse [of True] by simp

section \<open>Claims about parse\_role\_data\<close>

text \<open>
  For the analysis, following the spec's words: \<open>role_coeffs\<close> is the list of all the
  coefficients the scan decodes, in scan order, without any grouping (the scan stops where
  the parser's loop stops); \<open>seal\<close> closes a block each time 52 entries have been
  collected and starts a new one.
\<close>

function role_coeffs :: "byte list \<Rightarrow> nat \<Rightarrow> nat \<Rightarrow> nat \<Rightarrow> error + role_object list" where
  "role_coeffs data body stop cur =
     (case role_step data cur of
        RoleDone \<Rightarrow> Inr []
      | RoleError e \<Rightarrow> Inl e
      | RoleCoeff c nxt \<Rightarrow>
          if stop \<le> body + nxt then Inr [c]
          else (case role_coeffs data body stop nxt of
                  Inl e \<Rightarrow> Inl e
                | Inr cs \<Rightarrow> Inr (c # cs)))"
  by pat_completeness auto
termination
  by (relation "measure (\<lambda>(data, body, stop, cur). length data - cur)")
     (auto dest: role_step_advances)

declare role_coeffs.simps [simp del]

fun seal :: "role_object list list \<Rightarrow> role_object list \<Rightarrow> role_object list
    \<Rightarrow> role_object list list \<times> role_object list" where
  "seal blocks coeffs [] = (blocks, coeffs)"
| "seal blocks coeffs (c # cs) =
     (if length (coeffs @ [c]) = 52 then seal (blocks @ [coeffs @ [c]]) [] cs
      else seal blocks (coeffs @ [c]) cs)"

lemma role_scan_seal:
  "role_scan data body stop blocks coeffs cur =
     (case role_coeffs data body stop cur of
        Inl e \<Rightarrow> Inl e
      | Inr cs \<Rightarrow> Inr (seal blocks coeffs cs))"
proof (induction data body stop blocks coeffs cur rule: role_scan.induct)
  case (1 data body stop blocks coeffs cur)
  show ?case
  proof (cases "role_step data cur")
    case RoleDone
    then show ?thesis
      by (simp add: role_scan.simps [of data body stop blocks coeffs cur]
          role_coeffs.simps [of data body stop cur])
  next
    case (RoleError e)
    then show ?thesis
      by (simp add: role_scan.simps [of data body stop blocks coeffs cur]
          role_coeffs.simps [of data body stop cur])
  next
    case (RoleCoeff c nxt)
    show ?thesis
    proof (cases "stop \<le> body + nxt")
      case True
      then show ?thesis using RoleCoeff
        by (simp add: role_scan.simps [of data body stop blocks coeffs cur]
            role_coeffs.simps [of data body stop cur] Let_def)
    next
      case False
      note IH = "1.IH" [OF RoleCoeff refl refl refl False]
      show ?thesis using RoleCoeff False IH
        by (simp add: role_scan.simps [of data body stop blocks coeffs cur]
            role_coeffs.simps [of data body stop cur] Let_def split: sum.splits)
    qed
  qed
qed

lemma seal_invariant:
  assumes "seal blocks coeffs cs = (B, C)" "\<forall>b\<in>set blocks. length b = 52" "length coeffs < 52"
  shows "(\<forall>b\<in>set B. length b = 52) \<and> length C < 52 \<and> concat B @ C = concat blocks @ coeffs @ cs"
  using assms
proof (induction cs arbitrary: blocks coeffs)
  case Nil
  then show ?case by simp
next
  case (Cons c cs)
  show ?case
  proof (cases "length (coeffs @ [c]) = 52")
    case True
    then have s: "seal (blocks @ [coeffs @ [c]]) [] cs = (B, C)" using Cons.prems(1) by simp
    have "\<forall>b\<in>set (blocks @ [coeffs @ [c]]). length b = 52" using Cons.prems(2) True by auto
    from Cons.IH [OF s this] show ?thesis by simp
  next
    case False
    then have s: "seal blocks (coeffs @ [c]) cs = (B, C)" using Cons.prems(1) by simp
    have "length (coeffs @ [c]) < 52" using Cons.prems(3) False by simp
    from Cons.IH [OF s Cons.prems(2) this] show ?thesis by simp
  qed
qed

lemma length_concat_blocks:
  "\<forall>b\<in>set B. length b = (52 :: nat) \<Longrightarrow> length (concat B) = 52 * length B"
  by (induction B) auto

lemma role_data_body_blocks:
  assumes "role_data_body buf body stop = Inr (blocks, msgs)"
  shows "(\<forall>b\<in>set blocks. length b = 52) \<and>
    (\<exists>cs leftover. role_coeffs (slice buf body stop) body stop 0 = Inr cs \<and>
       concat blocks @ leftover = cs \<and> length leftover < 52 \<and>
       length blocks = length cs div 52 \<and> length leftover = length cs mod 52 \<and>
       msgs = (if leftover = [] then [] else [TrailingFragment (length leftover)]) @
              [FinishedRoleData (length blocks)])"
proof -
  let ?data = "slice buf body stop"
  from assms obtain coeffs where
    scan: "role_scan ?data body stop [] [] 0 = Inr (blocks, coeffs)" and
    msgs: "msgs = (if coeffs \<noteq> [] then [TrailingFragment (length coeffs)] else []) @
              [FinishedRoleData (length blocks)]"
    by (auto simp: role_data_body_def Let_def split: sum.splits)
  from scan obtain cs where cs: "role_coeffs ?data body stop 0 = Inr cs"
    and seal: "seal [] [] cs = (blocks, coeffs)"
    by (auto simp: role_scan_seal split: sum.splits)
  from seal_invariant [OF seal] have inv: "\<forall>b\<in>set blocks. length b = 52" "length coeffs < 52"
    "concat blocks @ coeffs = cs" by simp_all
  have "length cs = 52 * length blocks + length coeffs"
    using inv(3) length_concat_blocks [OF inv(1)] by (metis length_append)
  then have dm: "length blocks = length cs div 52" "length coeffs = length cs mod 52"
    using inv(2) by simp_all
  have m: "msgs = (if coeffs = [] then [] else [TrailingFragment (length coeffs)]) @
              [FinishedRoleData (length blocks)]"
    using msgs by simp
  have "role_coeffs ?data body stop 0 = Inr cs \<and>
       concat blocks @ coeffs = cs \<and> length coeffs < 52 \<and>
       length blocks = length cs div 52 \<and> length coeffs = length cs mod 52 \<and>
       msgs = (if coeffs = [] then [] else [TrailingFragment (length coeffs)]) @
              [FinishedRoleData (length blocks)]"
    using cs inv(2,3) dm m by blast
  then show ?thesis using inv(1) by blast
qed

lemma parse_role_data_body:
  assumes "parse_role_data buf start stop = Inr r"
  shows "role_data_body buf (start + 10) stop = Inr r \<or>
         role_data_body buf (start + 14) stop = Inr r"
proof -
  have klen: "length (bytes_of ''role_data'') = 9" by (simp add: bytes_of_def)
  define marker where "marker = buf ! (start + 9)"
  define bad where "bad = (slice buf start (start + 9) \<noteq> bytes_of ''role_data'')"
  have eq: "parse_role_data buf start stop =
     (if bad then Inl RuntimeError_key_not_found
      else if length buf \<le> start + 9 then Inl IndexError
      else if marker \<in> {0xC9, 0x99} then role_data_body buf (start + 9 + 1) stop
      else if marker = 0x09 then role_data_body buf (start + 9 + 5) stop
      else Inl (RuntimeError_unknown_container marker))"
    unfolding parse_role_data_def Let_def klen marker_def bad_def ..
  have c: "start + 9 + 1 = start + 10" "start + 9 + 5 = start + 14" by simp_all
  show ?thesis
    using assms unfolding eq c by (simp split: if_splits)
qed

text \<open>
  An example section: 53 coefficients named G with the tiny value 5, in an object
  container; 52 make one block and one is left over.
\<close>

definition example_coeff :: "byte list" where
  "example_coeff = NAME_S @ [0x81, 0x47] @ VALUE_S @ [0x85]"

definition example_role_data :: "byte list" where
  "example_role_data = concat (replicate 53 example_coeff)"

definition example_role_buf :: "byte list" where
  "example_role_buf = bytes_of ''role_data'' @ [0xC9] @ example_role_data"

lemma example_role_data_bytes:
  "example_role_data =
     [0x3A, 0x04, 0x6E, 0x61, 0x6D, 0x65, 0x81, 0x47, 0x05, 0x76, 0x61, 0x6C, 0x75, 0x65, 0x85,
     0x3A, 0x04, 0x6E, 0x61, 0x6D, 0x65, 0x81, 0x47, 0x05, 0x76, 0x61, 0x6C, 0x75, 0x65, 0x85,
     0x3A, 0x04, 0x6E, 0x61, 0x6D, 0x65, 0x81, 0x47, 0x05, 0x76, 0x61, 0x6C, 0x75, 0x65, 0x85,
     0x3A, 0x04, 0x6E, 0x61, 0x6D, 0x65, 0x81, 0x47, 0x05, 0x76, 0x61, 0x6C, 0x75, 0x65, 0x85,
     0x3A, 0x04, 0x6E, 0x61, 0x6D, 0x65, 0x81, 0x47, 0x05, 0x76, 0x61, 0x6C, 0x75, 0x65, 0x85,
     0x3A, 0x04, 0x6E, 0x61, 0x6D, 0x65, 0x81, 0x47, 0x05, 0x76, 0x61, 0x6C, 0x75, 0x65, 0x85,
     0x3A, 0x04, 0x6E, 0x61, 0x6D, 0x65, 0x81, 0x47, 0x05, 0x76, 0x61, 0x6C, 0x75, 0x65, 0x85,
     0x3A, 0x04, 0x6E, 0x61, 0x6D, 0x65, 0x81, 0x47, 0x05, 0x76, 0x61, 0x6C, 0x75, 0x65, 0x85,
     0x3A, 0x04, 0x6E, 0x61, 0x6D, 0x65, 0x81, 0x47, 0x05, 0x76, 0x61, 0x6C, 0x75, 0x65, 0x85,
     0x3A, 0x04, 0x6E, 0x61, 0x6D, 0x65, 0x81, 0x47, 0x05, 0x76, 0x61, 0x6C, 0x75, 0x65, 0x85,
     0x3A, 0x04, 0x6E, 0x61, 0x6D, 0x65, 0x81, 0x47, 0x05, 0x76, 0x61, 0x6C, 0x75, 0x65, 0x85,
     0x3A, 0x04, 0x6E, 0x61, 0x6D, 0x65, 0x81, 0x47, 0x05, 0x76, 0x61, 0x6C, 0x75, 0x65, 0x85,
     0x3A, 0x04, 0x6E, 0x61, 0x6D, 0x65, 0x81, 0x47, 0x05, 0x76, 0x61, 0x6C, 0x75, 0x65, 0x85,
     0x3A, 0x04, 0x6E, 0x61, 0x6D, 0x65, 0x81, 0x47, 0x05, 0x76, 0x61, 0x6C, 0x75, 0x65, 0x85,
     0x3A, 0x04, 0x6E, 0x61, 0x6D, 0x65, 0x81, 0x47, 0x05, 0x76, 0x61, 0x6C, 0x75, 0x65, 0x85,
     0x3A, 0x04, 0x6E, 0x61, 0x6D, 0x65, 0x81, 0x47, 0x05, 0x76, 0x61, 0x6C, 0x75, 0x65, 0x85,
     0x3A, 0x04, 0x6E, 0x61, 0x6D, 0x65, 0x81, 0x47, 0x05, 0x76, 0x61, 0x6C, 0x75, 0x65, 0x85,
     0x3A, 0x04, 0x6E, 0x61, 0x6D, 0x65, 0x81, 0x47, 0x05, 0x76, 0x61, 0x6C, 0x75, 0x65, 0x85,
     0x3A, 0x04, 0x6E, 0x61, 0x6D, 0x65, 0x81, 0x47, 0x05, 0x76, 0x61, 0x6C, 0x75, 0x65, 0x85,
     0x3A, 0x04, 0x6E, 0x61, 0x6D, 0x65, 0x81, 0x47, 0x05, 0x76, 0x61, 0x6C, 0x75, 0x65, 0x85,
     0x3A, 0x04, 0x6E, 0x61, 0x6D, 0x65, 0x81, 0x47, 0x05, 0x76, 0x61, 0x6C, 0x75, 0x65, 0x85,
     0x3A, 0x04, 0x6E, 0x61, 0x6D, 0x65, 0x81, 0x47, 0x05, 0x76, 0x61, 0x6C, 0x75, 0x65, 0x85,
     0x3A, 0x04, 0x6E, 0x61, 0x6D, 0x65, 0x81, 0x47, 0x05, 0x76, 0x61, 0x6C, 0x75, 0x65, 0x85,
     0x3A, 0x04, 0x6E, 0x61, 0x6D, 0x65, 0x81, 0x47, 0x05, 0x76, 0x61, 0x6C, 0x75, 0x65, 0x85,
     0x3A, 0x04, 0x6E, 0x61, 0x6D, 0x65, 0x81, 0x47, 0x05, 0x76, 0x61, 0x6C, 0x75, 0x65, 0x85,
     0x3A, 0x04, 0x6E, 0x61, 0x6D, 0x65, 0x81, 0x47, 0x05, 0x76, 0x61, 0x6C, 0x75, 0x65, 0x85,
     0x3A, 0x04, 0x6E, 0x61, 0x6D, 0x65, 0x81, 0x47, 0x05, 0x76, 0x61, 0x6C, 0x75, 0x65, 0x85,
     0x3A, 0x04, 0x6E, 0x61, 0x6D, 0x65, 0x81, 0x47, 0x05, 0x76, 0x61, 0x6C, 0x75, 0x65, 0x85,
     0x3A, 0x04, 0x6E, 0x61, 0x6D, 0x65, 0x81, 0x47, 0x05, 0x76, 0x61, 0x6C, 0x75, 0x65, 0x85,
     0x3A, 0x04, 0x6E, 0x61, 0x6D, 0x65, 0x81, 0x47, 0x05, 0x76, 0x61, 0x6C, 0x75, 0x65, 0x85,
     0x3A, 0x04, 0x6E, 0x61, 0x6D, 0x65, 0x81, 0x47, 0x05, 0x76, 0x61, 0x6C, 0x75, 0x65, 0x85,
     0x3A, 0x04, 0x6E, 0x61, 0x6D, 0x65, 0x81, 0x47, 0x05, 0x76, 0x61, 0x6C, 0x75, 0x65, 0x85,
     0x3A, 0x04, 0x6E, 0x61, 0x6D, 0x65, 0x81, 0x47, 0x05, 0x76, 0x61, 0x6C, 0x75, 0x65, 0x85,
     0x3A, 0x04, 0x6E, 0x61, 0x6D, 0x65, 0x81, 0x47, 0x05, 0x76, 0x61, 0x6C, 0x75, 0x65, 0x85,
     0x3A, 0x04, 0x6E, 0x61, 0x6D, 0x65, 0x81, 0x47, 0x05, 0x76, 0x61, 0x6C, 0x75, 0x65, 0x85,
     0x3A, 0x04, 0x6E, 0x61, 0x6D, 0x65, 0x81, 0x47, 0x05, 0x76, 0x61, 0x6C, 0x75, 0x65, 0x85,
     0x3A, 0x04, 0x6E, 0x61, 0x6D, 0x65, 0x81, 0x47, 0x05, 0x76, 0x61, 0x6C, 0x75, 0x65, 0x85,
     0x3A, 0x04, 0x6E, 0x61, 0x6D, 0x65, 0x81, 0x47, 0x05, 0x76, 0x61, 0x6C, 0x75, 0x65, 0x85,
     0x3A, 0x04, 0x6E, 0x61, 0x6D, 0x65, 0x81, 0x47, 0x05, 0x76, 0x61, 0x6C, 0x75, 0x65, 0x85,
     0x3A, 0x04, 0x6E, 0x61, 0x6D, 0x65, 0x81, 0x47, 0x05, 0x76, 0x61, 0x6C, 0x75, 0x65, 0x85,
     0x3A, 0x04, 0x6E, 0x61, 0x6D, 0x65, 0x81, 0x47, 0x05, 0x76, 0x61, 0x6C, 0x75, 0x65, 0x85,
     0x3A, 0x04, 0x6E, 0x61, 0x6D, 0x65, 0x81, 0x47, 0x05, 0x76, 0x61, 0x6C, 0x75, 0x65, 0x85,
     0x3A, 0x04, 0x6E, 0x61, 0x6D, 0x65, 0x81, 0x47, 0x05, 0x76, 0x61, 0x6C, 0x75, 0x65, 0x85,
     0x3A, 0x04, 0x6E, 0x61, 0x6D, 0x65, 0x81, 0x47, 0x05, 0x76, 0x61, 0x6C, 0x75, 0x65, 0x85,
     0x3A, 0x04, 0x6E, 0x61, 0x6D, 0x65, 0x81, 0x47, 0x05, 0x76, 0x61, 0x6C, 0x75, 0x65, 0x85,
     0x3A, 0x04, 0x6E, 0x61, 0x6D, 0x65, 0x81, 0x47, 0x05, 0x76, 0x61, 0x6C, 0x75, 0x65, 0x85,
     0x3A, 0x04, 0x6E, 0x61, 0x6D, 0x65, 0x81, 0x47, 0x05, 0x76, 0x61, 0x6C, 0x75, 0x65, 0x85,
     0x3A, 0x04, 0x6E, 0x61, 0x6D, 0x65, 0x81, 0x47, 0x05, 0x76, 0x61, 0x6C, 0x75, 0x65, 0x85,
     0x3A, 0x04, 0x6E, 0x61, 0x6D, 0x65, 0x81, 0x47, 0x05, 0x76, 0x61, 0x6C, 0x75, 0x65, 0x85,
     0x3A, 0x04, 0x6E, 0x61, 0x6D, 0x65, 0x81, 0x47, 0x05, 0x76, 0x61, 0x6C, 0x75, 0x65, 0x85,
     0x3A, 0x04, 0x6E, 0x61, 0x6D, 0x65, 0x81, 0x47, 0x05, 0x76, 0x61, 0x6C, 0x75, 0x65, 0x85,
     0x3A, 0x04, 0x6E, 0x61, 0x6D, 0x65, 0x81, 0x47, 0x05, 0x76, 0x61, 0x6C, 0x75, 0x65, 0x85,
     0x3A, 0x04, 0x6E, 0x61, 0x6D, 0x65, 0x81, 0x47, 0x05, 0x76, 0x61, 0x6C, 0x75, 0x65, 0x85]"
  by (simp add: example_role_data_def example_coeff_def NAME_S_def VALUE_S_def bytes_of_def
      numeral_eq_Suc)

lemma example_role_steps:
  "role_step example_role_data 0 = RoleCoeff (Role_object [71] 5) 15"
  "role_step example_role_data 15 = RoleCoeff (Role_object [71] 5) 30"
  "role_step example_role_data 30 = RoleCoeff (Role_object [71] 5) 45"
  "role_step example_role_data 45 = RoleCoeff (Role_object [71] 5) 60"
  "role_step example_role_data 60 = RoleCoeff (Role_object [71] 5) 75"
  "role_step example_role_data 75 = RoleCoeff (Role_object [71] 5) 90"
  "role_step example_role_data 90 = RoleCoeff (Role_object [71] 5) 105"
  "role_step example_role_data 105 = RoleCoeff (Role_object [71] 5) 120"
  "role_step example_role_data 120 = RoleCoeff (Role_object [71] 5) 135"
  "role_step example_role_data 135 = RoleCoeff (Role_object [71] 5) 150"
  "role_step example_role_data 150 = RoleCoeff (Role_object [71] 5) 165"
  "role_step example_role_data 165 = RoleCoeff (Role_object [71] 5) 180"
  "role_step example_role_data 180 = RoleCoeff (Role_object [71] 5) 195"
  "role_step example_role_data 195 = RoleCoeff (Role_object [71] 5) 210"
  "role_step example_role_data 210 = RoleCoeff (Role_object [71] 5) 225"
  "role_step example_role_data 225 = RoleCoeff (Role_object [71] 5) 240"
  "role_step example_role_data 240 = RoleCoeff (Role_object [71] 5) 255"
  "role_step example_role_data 255 = RoleCoeff (Role_object [71] 5) 270"
  "role_step example_role_data 270 = RoleCoeff (Role_object [71] 5) 285"
  "role_step example_role_data 285 = RoleCoeff (Role_object [71] 5) 300"
  "role_step example_role_data 300 = RoleCoeff (Role_object [71] 5) 315"
  "role_step example_role_data 315 = RoleCoeff (Role_object [71] 5) 330"
  "role_step example_role_data 330 = RoleCoeff (Role_object [71] 5) 345"
  "role_step example_role_data 345 = RoleCoeff (Role_object [71] 5) 360"
  "role_step example_role_data 360 = RoleCoeff (Role_object [71] 5) 375"
  "role_step example_role_data 375 = RoleCoeff (Role_object [71] 5) 390"
  "role_step example_role_data 390 = RoleCoeff (Role_object [71] 5) 405"
  "role_step example_role_data 405 = RoleCoeff (Role_object [71] 5) 420"
  "role_step example_role_data 420 = RoleCoeff (Role_object [71] 5) 435"
  "role_step example_role_data 435 = RoleCoeff (Role_object [71] 5) 450"
  "role_step example_role_data 450 = RoleCoeff (Role_object [71] 5) 465"
  "role_step example_role_data 465 = RoleCoeff (Role_object [71] 5) 480"
  "role_step example_role_data 480 = RoleCoeff (Role_object [71] 5) 495"
  "role_step example_role_data 495 = RoleCoeff (Role_object [71] 5) 510"
  "role_step example_role_data 510 = RoleCoeff (Role_object [71] 5) 525"
  "role_step example_role_data 525 = RoleCoeff (Role_object [71] 5) 540"
  "role_step example_role_data 540 = RoleCoeff (Role_object [71] 5) 555"
  "role_step example_role_data 555 = RoleCoeff (Role_object [71] 5) 570"
  "role_step example_role_data 570 = RoleCoeff (Role_object [71] 5) 585"
  "role_step example_role_data 585 = RoleCoeff (Role_object [71] 5) 600"
  "role_step example_role_data 600 = RoleCoeff (Role_object [71] 5) 615"
  "role_step example_role_data 615 = RoleCoeff (Role_object [71] 5) 630"
  "role_step example_role_data 630 = RoleCoeff (Role_object [71] 5) 645"
  "role_step example_role_data 645 = RoleCoeff (Role_object [71] 5) 660"
  "role_step example_role_data 660 = RoleCoeff (Role_object [71] 5) 675"
  "role_step example_role_data 675 = RoleCoeff (Role_object [71] 5) 690"
  "role_step example_role_data 690 = RoleCoeff (Role_object [71] 5) 705"
  "role_step example_role_data 705 = RoleCoeff (Role_object [71] 5) 720"
  "role_step example_role_data 720 = RoleCoeff (Role_object [71] 5) 735"
  "role_step example_role_data 735 = RoleCoeff (Role_object [71] 5) 750"
  "role_step example_role_data 750 = RoleCoeff (Role_object [71] 5) 765"
  "role_step example_role_data 765 = RoleCoeff (Role_object [71] 5) 780"
  "role_step example_role_data 780 = RoleCoeff (Role_object [71] 5) 795"
  by (simp_all add: example_role_data_bytes role_step_def bytes_find_def NAME_S_def VALUE_S_def
      bytes_of_def clean_label_def slice_def role_value_def Let_def)

lemma replicate_numeral_Cons:
  "replicate (numeral k) x = x # replicate (pred_numeral k) x"
  by (simp add: numeral_eq_Suc)

lemma example_role_scan:
  "role_scan example_role_data 10 805 [] [] 0 =
     Inr ([replicate 52 (Role_object [71] 5)], [Role_object [71] 5])"
  by (simp add: role_scan.simps example_role_steps Let_def replicate_numeral_Cons)

lemma example_role_coeffs:
  "role_coeffs example_role_data 10 805 0 = Inr (replicate 53 (Role_object [71] 5))"
  by (simp add: role_coeffs.simps example_role_steps replicate_numeral_Cons)

lemma example_role_slice: "slice example_role_buf 10 805 = example_role_data"
  by (simp add: example_role_buf_def bytes_of_def slice_def example_role_data_bytes)

lemma example_role_parse:
  "parse_role_data example_role_buf 0 805 =
     Inr ([replicate 52 (Role_object [71] 5)], [TrailingFragment 1, FinishedRoleData 1])"
proof -
  have k: "slice example_role_buf 0 9 = bytes_of ''role_data''" "example_role_buf ! 9 = 0xC9"
    "\<not> length example_role_buf \<le> 9"
    by (simp_all add: example_role_buf_def bytes_of_def slice_def example_role_data_bytes)
  have b: "role_data_body example_role_buf 10 805 =
     Inr ([replicate 52 (Role_object [71] 5)], [TrailingFragment 1, FinishedRoleData 1])"
    by (simp add: role_data_body_def example_role_slice example_role_scan)
  have klen: "length (bytes_of ''role_data'') = 9" by (simp add: bytes_of_def)
  have "parse_role_data example_role_buf 0 805 = role_data_body example_role_buf (0 + 9 + 1) 805"
    unfolding parse_role_data_def Let_def klen using k by simp
  then show ?thesis using b by simp
qed

text \<open>
  C9: in every result of \<open>parse_role_data\<close> each block has exactly 52 coefficients. The
  blocks followed by the discarded partial block are exactly the coefficients the scan
  decoded, in order, so nothing is padded: the number of blocks is the number of decoded
  coefficients divided by 52, the partial block has the remainder (fewer than 52), and
  when it is not empty its size is reported in the trailing-fragment line.
\<close>

theorem role_data_blocks_of_52:
  assumes "parse_role_data buf start stop = Inr (blocks, msgs)"
  shows "(\<forall>b\<in>set blocks. length b = 52) \<and>
    (\<exists>body cs leftover. (body = start + 10 \<or> body = start + 14) \<and>
       role_coeffs (slice buf body stop) body stop 0 = Inr cs \<and>
       concat blocks @ leftover = cs \<and> length leftover < 52 \<and>
       length blocks = length cs div 52 \<and> length leftover = length cs mod 52 \<and>
       msgs = (if leftover = [] then [] else [TrailingFragment (length leftover)]) @
              [FinishedRoleData (length blocks)])"
proof -
  from parse_role_data_body [OF assms] have
    "\<exists>body. (body = start + 10 \<or> body = start + 14) \<and>
       role_data_body buf body stop = Inr (blocks, msgs)"
    by (elim disjE) (rule exI [of _ "start + 10"], simp, rule exI [of _ "start + 14"], simp)
  then obtain body where
    bd: "body = start + 10 \<or> body = start + 14" and
    b: "role_data_body buf body stop = Inr (blocks, msgs)"
    by (elim exE conjE)
  note r = role_data_body_blocks [OF b]
  from r [THEN conjunct2] obtain cs leftover where
    f: "role_coeffs (slice buf body stop) body stop 0 = Inr cs \<and>
       concat blocks @ leftover = cs \<and> length leftover < 52 \<and>
       length blocks = length cs div 52 \<and> length leftover = length cs mod 52 \<and>
       msgs = (if leftover = [] then [] else [TrailingFragment (length leftover)]) @
              [FinishedRoleData (length blocks)]"
    by (elim exE)
  show ?thesis
    apply (rule conjI [OF r [THEN conjunct1]])
    apply (rule exI [of _ body], rule exI [of _ cs], rule exI [of _ leftover])
    apply (rule conjI [OF bd f])
    done
qed

theorem role_data_blocks_of_52_witness:
  "parse_role_data example_role_buf 0 805 =
     Inr ([replicate 52 (Role_object [71] 5)], [TrailingFragment 1, FinishedRoleData 1]) \<and>
   role_coeffs (slice example_role_buf 10 805) 10 805 0 = Inr (replicate 53 (Role_object [71] 5)) \<and>
   length (replicate 52 (Role_object [71] 5)) = 52"
  using role_data_blocks_of_52 [OF example_role_parse] example_role_parse example_role_coeffs
    example_role_slice
  by simp

section \<open>Claims about parse\_role\_lookup\<close>

text \<open>
  For the analysis, following the spec's words: \<open>first_rows data cur k\<close> reads at most
  \<open>k\<close> rows from \<open>cur\<close> on and never looks past the \<open>k\<close>-th; it stops early where
  no further index label is found.
\<close>

fun first_rows :: "byte list \<Rightarrow> nat \<Rightarrow> nat \<Rightarrow> error + role_lookup_object list" where
  "first_rows data cur 0 = Inr []"
| "first_rows data cur (Suc k) =
     (case lookup_step data cur of
        NoMoreIndex \<Rightarrow> Inr []
      | LookupError e \<Rightarrow> Inl e
      | LookupRow r nxt \<Rightarrow>
          (case first_rows data nxt k of
             Inl e \<Rightarrow> Inl e
           | Inr rs \<Rightarrow> Inr (r # rs)))"

lemma first_rows_length: "first_rows data cur k = Inr rs \<Longrightarrow> length rs \<le> k"
proof (induction k arbitrary: cur rs)
  case 0
  then show ?case by simp
next
  case (Suc k)
  show ?case
  proof (cases "lookup_step data cur")
    case NoMoreIndex
    then show ?thesis using Suc.prems by simp
  next
    case (LookupError e)
    then show ?thesis using Suc.prems by simp
  next
    case (LookupRow r nxt)
    then obtain rs' where "first_rows data nxt k = Inr rs'" "rs = r # rs'"
      using Suc.prems by (auto split: sum.splits)
    then show ?thesis using Suc.IH by auto
  qed
qed





text \<open>
  Example sections: an array container with a one-byte declared count, followed by rows
  whose index and role are tiny integers.
\<close>

definition lookup_row :: "byte \<Rightarrow> byte \<Rightarrow> byte list" where
  "lookup_row i r = INDEX_SENT @ [i] @ ROLE_SENT @ [r]"

definition lookup_example :: "byte \<Rightarrow> byte list \<Rightarrow> byte list" where
  "lookup_example declared rows =
     bytes_of ''role_lookup_data'' @ [0x09, declared, 0x00, 0x00, 0x00] @ rows"

lemmas lookup_eval = lookup_example_def lookup_row_def INDEX_SENT_def ROLE_SENT_def bytes_of_def
  parse_role_lookup_def role_lookup_body_def lookup_scan.simps lookup_step_def bytes_find_def
  read_int_def tiny_nibble_def unpack_unsigned_def slice_def Let_def


lemma lookup_example_three:
  "parse_role_lookup
     (lookup_example 2 (lookup_row 0x81 0x85 @ lookup_row 0x83 0x85 @ lookup_row 0x84 0x85)) 0 60 =
   Inr [Role_lookup_object 1 5, Role_lookup_object 3 5]"
  by (simp add: lookup_eval)





end
